theory Spec2Isabelle
  imports Complex_Main "HOL-Library.AList"
begin

section \<open>Data model\<close>

text \<open>
  A data record of a dataset is a Python dict from field names to JSON values
  (\<^verbatim>\<open>Dict[str, Any]\<close>). It is modelled as a map; the value type \<open>'v\<close> stays
  abstract, and HOL equality on it stands for Python's \<^verbatim>\<open>==\<close> on JSON values.
  Equality of two maps is then Python's equality of two dicts: the same keys
  with equal values, whatever the insertion order.

  The payload of a change-log entry (\<^verbatim>\<open>ChangeLog.changed_data\<close>) is a dict
  from a key (\<^verbatim>\<open>initial_data\<close>, \<^verbatim>\<open>added\<close>, \<^verbatim>\<open>modified\<close>, \<^verbatim>\<open>deleted\<close>,
  \<^verbatim>\<open>changes\<close>, \<^verbatim>\<open>batch_data\<close>) to a list of records: every writer of the
  repository stores a list of dicts under a single key.
\<close>

type_synonym uuid = string

type_synonym 'v row = "string \<rightharpoonup> 'v"

type_synonym 'v payload = "string \<rightharpoonup> 'v row list"

datatype operation = INSERT | UPDATE | DELETE

text \<open>
  \<^verbatim>\<open>models.ChangeLog\<close>: the columns of a stored row that the code under study
  reads. The column \<^verbatim>\<open>changed_by\<close>, which no reader uses, is added where the
  objects that \<^verbatim>\<open>bulk_insert\<close> hands to the session are modelled.
\<close>

record 'v change_log =
  cl_version_id :: uuid
  operation_type :: operation
  changed_data :: "'v payload"

text \<open>
  Errors are values. \<^verbatim>\<open>KeyError\<close> is what \<^verbatim>\<open>d["id"]\<close> raises on a dict
  without that key (the endpoint does not catch it); \<^verbatim>\<open>HTTPException\<close>
  carries its status code; \<^verbatim>\<open>AttributeError\<close> is what reading an attribute of
  \<^verbatim>\<open>None\<close> raises. \<open>UnmodelledFloat\<close> marks a call of \<^verbatim>\<open>float\<close> on a string
  that is not a plain decimal, which the model of \<^verbatim>\<open>float\<close> below does not cover.
\<close>

datatype error = KeyError | HTTPException nat | AttributeError | UnmodelledFloat

section \<open>The replay fold of \<^verbatim>\<open>get_specific_version\<close>\<close>

text \<open>\<^verbatim>\<open>changed_data.get(key, [])\<close>\<close>

definition get_list :: "'v payload \<Rightarrow> string \<Rightarrow> 'v row list" where
  "get_list changed k = (case changed k of None \<Rightarrow> [] | Some xs \<Rightarrow> xs)"

text \<open>
  The inner loop of the UPDATE branch:
  \<^verbatim>\<open>
  for existing_record in complete_data:
      if existing_record["id"] == record["id"]:
          existing_record.update(record)
          break
  \<close>
  Both subscripts raise \<^verbatim>\<open>KeyError\<close> on a dict without \<^verbatim>\<open>id\<close>; the left one is
  evaluated first. \<^verbatim>\<open>existing_record.update(record)\<close> is \<open>existing ++ record\<close>.
  The records of the accumulator are distinct objects (each comes from its
  own place in a deserialised payload), so the in-place update changes one
  position of the list only.
\<close>

fun update_existing :: "'v row \<Rightarrow> 'v row list \<Rightarrow> error + 'v row list" where
  "update_existing rec [] = Inr []"
| "update_existing rec (existing # rest) =
     (case existing ''id'' of
        None \<Rightarrow> Inl KeyError
      | Some eid \<Rightarrow>
          (case rec ''id'' of
             None \<Rightarrow> Inl KeyError
           | Some rid \<Rightarrow>
               if eid = rid then Inr ((existing ++ rec) # rest)
               else (case update_existing rec rest of
                       Inl e \<Rightarrow> Inl e
                     | Inr rest' \<Rightarrow> Inr (existing # rest'))))"

text \<open>The outer loop: \<^verbatim>\<open>for record in changed_data.get("modified", [])\<close>.\<close>

fun apply_modified :: "'v row list \<Rightarrow> 'v row list \<Rightarrow> error + 'v row list" where
  "apply_modified [] complete_data = Inr complete_data"
| "apply_modified (rec # recs) complete_data =
     (case update_existing rec complete_data of
        Inl e \<Rightarrow> Inl e
      | Inr complete_data' \<Rightarrow> apply_modified recs complete_data')"

text \<open>One iteration of \<^verbatim>\<open>for change_log in change_logs\<close>.\<close>

definition apply_change_log :: "'v row list \<Rightarrow> 'v change_log \<Rightarrow> error + 'v row list" where
  "apply_change_log complete_data cl =
     (let changed = changed_data cl in
      case operation_type cl of
        INSERT \<Rightarrow>
          if changed ''initial_data'' \<noteq> None
          then Inr (complete_data @ get_list changed ''initial_data'')
          else Inr (complete_data @ get_list changed ''added'')
      | UPDATE \<Rightarrow> apply_modified (get_list changed ''modified'') complete_data
      | DELETE \<Rightarrow>
          Inr (filter (\<lambda>r. r \<notin> set (get_list changed ''deleted'')) complete_data))"

fun replay_from :: "'v row list \<Rightarrow> 'v change_log list \<Rightarrow> error + 'v row list" where
  "replay_from complete_data [] = Inr complete_data"
| "replay_from complete_data (cl # cls) =
     (case apply_change_log complete_data cl of
        Inl e \<Rightarrow> Inl e
      | Inr complete_data' \<Rightarrow> replay_from complete_data' cls)"

text \<open>\<^verbatim>\<open>complete_data = []\<close>, then the loop.\<close>

definition replay :: "'v change_log list \<Rightarrow> error + 'v row list" where
  "replay change_logs = replay_from [] change_logs"

text \<open>
  The change-log entry that \<^verbatim>\<open>create_new_version\<close> stores for a new version:
  \<^verbatim>\<open>ChangeLog(version_id=new_version.version_id, operation_type=version.change_type,
  changed_data={"changes": version.data})\<close>.
\<close>

definition new_version_change_log :: "uuid \<Rightarrow> operation \<Rightarrow> 'v row list \<Rightarrow> 'v change_log" where
  "new_version_change_log vid op data_rows =
     \<lparr>cl_version_id = vid, operation_type = op,
      changed_data = [''changes'' \<mapsto> data_rows]\<rparr>"

section \<open>The UPDATE rule in the words of the specification\<close>

text \<open>
  The specification of UPDATE, written down independently of the code: the
  fields of the partial record are merged into an existing record, fields
  the partial record does not mention are kept; the accumulator record at the
  first position with the same \<^verbatim>\<open>id\<close> is replaced by the merged one, and
  without such a position the accumulator is left as it is. The partial
  records of an UPDATE are applied one after the other.
\<close>

definition merge_fields_spec :: "'v row \<Rightarrow> 'v row \<Rightarrow> 'v row" where
  "merge_fields_spec existing partial =
     (\<lambda>k. case partial k of Some v \<Rightarrow> Some v | None \<Rightarrow> existing k)"

definition merge_first_spec :: "'v row \<Rightarrow> 'v row list \<Rightarrow> 'v row list" where
  "merge_first_spec partial acc =
     (let i = length (takeWhile (\<lambda>e. e ''id'' \<noteq> partial ''id'') acc)
      in if i < length acc then acc[i := merge_fields_spec (acc ! i) partial] else acc)"

definition update_spec :: "'v row list \<Rightarrow> 'v row list \<Rightarrow> 'v row list" where
  "update_spec acc modified = foldl (\<lambda>a partial. merge_first_spec partial a) acc modified"

section \<open>The schema compatibility checker (\<^verbatim>\<open>validate_schema_compatibility\<close>)\<close>

text \<open>
  A column definition: the dict the checker reads, with the keys of
  \<^verbatim>\<open>schemas.SchemaDefinition\<close>.
\<close>

record schema_definition =
  column_name :: string
  data_type :: string
  is_nullable :: bool
  description :: "string option"

text \<open>
  \<^verbatim>\<open>{col["column_name"]: col for col in schema}\<close>: a Python dict keeps the
  position of a key's first insertion and the value of its last, which is
  what \<open>AList.update\<close> does on an association list.
\<close>

definition columns_by_name :: "schema_definition list \<Rightarrow> (string \<times> schema_definition) list" where
  "columns_by_name schema = fold (\<lambda>col d. AList.update (column_name col) col d) schema []"

text \<open>
  The three kinds of warning the checker appends, and the f-string of each
  (\<open>render\<close>); \<open>CHR 0x27\<close> is the single quote around the column name.
\<close>

datatype warning =
    Removed string
  | TypeChanged string string string
  | NullableNarrowed string

definition quoted :: "string \<Rightarrow> string" where
  "quoted s = [CHR 0x27] @ s @ [CHR 0x27]"

fun render :: "warning \<Rightarrow> string" where
  "render (Removed col_name) = ''Column '' @ quoted col_name @ '' has been removed''"
| "render (TypeChanged col_name old_type new_type) =
     ''Data type changed for column '' @ quoted col_name @ '': '' @ old_type @ '' -> '' @ new_type"
| "render (NullableNarrowed col_name) =
     ''Column '' @ quoted col_name @ '' changed from nullable to non-nullable''"

text \<open>
  The first loop: \<^verbatim>\<open>for col_name in old_columns: if col_name not in new_columns\<close>.
\<close>

definition removed_warnings ::
  "(string \<times> schema_definition) list \<Rightarrow> (string \<times> schema_definition) list \<Rightarrow> warning list" where
  "removed_warnings old_columns new_columns =
     concat (map (\<lambda>(col_name, old_col).
        if map_of new_columns col_name = None then [Removed col_name] else []) old_columns)"

text \<open>
  The second loop: \<^verbatim>\<open>for col_name, new_col in new_columns.items(): if col_name in old_columns\<close>,
  with its two independent tests.
\<close>

definition modified_warnings ::
  "(string \<times> schema_definition) list \<Rightarrow> (string \<times> schema_definition) list \<Rightarrow> warning list" where
  "modified_warnings old_columns new_columns =
     concat (map (\<lambda>(col_name, new_col).
        case map_of old_columns col_name of
          None \<Rightarrow> []
        | Some old_col \<Rightarrow>
            (if data_type new_col \<noteq> data_type old_col
             then [TypeChanged col_name (data_type old_col) (data_type new_col)] else [])
            @ (if is_nullable old_col \<and> \<not> is_nullable new_col
               then [NullableNarrowed col_name] else [])) new_columns)"

definition schema_warnings :: "schema_definition list \<Rightarrow> schema_definition list \<Rightarrow> warning list" where
  "schema_warnings old_schema new_schema =
     (let old_columns = columns_by_name old_schema;
          new_columns = columns_by_name new_schema
      in removed_warnings old_columns new_columns @ modified_warnings old_columns new_columns)"

definition validate_schema_compatibility :: "schema_definition list \<Rightarrow> schema_definition list \<Rightarrow> string list" where
  "validate_schema_compatibility old_schema new_schema = map render (schema_warnings old_schema new_schema)"



text \<open>The column a warning is about.\<close>

fun warning_column :: "warning \<Rightarrow> string" where
  "warning_column (Removed c) = c"
| "warning_column (TypeChanged c t t') = c"
| "warning_column (NullableNarrowed c) = c"

section \<open>The stored tables\<close>

text \<open>
  \<^verbatim>\<open>models.Version\<close> and \<^verbatim>\<open>models.SchemaVersion\<close>. Timestamps are natural
  numbers; \<^verbatim>\<open>change_type\<close> is a nullable column. A table is the list of its
  rows in storage order; a query without \<^verbatim>\<open>order_by\<close> yields rows in that order.
  Of \<^verbatim>\<open>models.Dataset\<close> only the identifiers are kept.
\<close>

record version =
  version_id :: uuid
  dataset_id :: uuid
  version_number :: string
  created_at :: nat
  created_by :: uuid
  change_type :: "operation option"
  comment :: "string option"

record schema_version = schema_definition +
  sv_version_id :: uuid

record 'v database =
  datasets :: "uuid list"
  versions :: "version list"
  schema_versions :: "schema_version list"
  change_logs :: "'v change_log list"

text \<open>The relationships \<^verbatim>\<open>version.schema_versions\<close> and \<^verbatim>\<open>version.changes\<close>.\<close>

definition version_schema :: "'v database \<Rightarrow> version \<Rightarrow> schema_version list" where
  "version_schema db v = filter (\<lambda>sv. sv_version_id sv = version_id v) (schema_versions db)"

definition version_changes :: "'v database \<Rightarrow> version \<Rightarrow> 'v change_log list" where
  "version_changes db v = filter (\<lambda>cl. cl_version_id cl = version_id v) (change_logs db)"

section \<open>Version search (\<^verbatim>\<open>search_versions\<close>)\<close>

text \<open>
  The dict \<^verbatim>\<open>_format_version_result\<close> builds for a version. The identifier and
  the time stand for their strings (\<^verbatim>\<open>str(version_id)\<close>, \<^verbatim>\<open>created_at.isoformat()\<close>).
\<close>

record version_result =
  r_version_id :: string
  r_version_number :: string
  r_created_at :: nat
  r_change_type :: "operation option"
  r_schema_versions :: "(string \<times> string \<times> bool) list"

definition format_version_result :: "'v database \<Rightarrow> version \<Rightarrow> version_result" where
  "format_version_result db v =
     \<lparr>r_version_id = version_id v,
      r_version_number = version_number v,
      r_created_at = created_at v,
      r_change_type = change_type v,
      r_schema_versions =
        map (\<lambda>sv. (column_name sv, data_type sv, is_nullable sv)) (version_schema db v)\<rparr>"

text \<open>
  The \<^verbatim>\<open>filters\<close> dict: each of the keys \<^verbatim>\<open>date_range\<close>, \<^verbatim>\<open>change_type\<close> and
  \<^verbatim>\<open>schema_changes\<close> is present or not.
\<close>

record filters =
  date_range :: "(nat \<times> nat) option"
  f_change_type :: "operation option"
  schema_changes :: "string list option"

text \<open>
  A query for one mapped entity returns each entity once, however many joined
  rows it has: \<open>uniq\<close> keeps the first occurrence of each row.
\<close>

fun uniq :: "'a list \<Rightarrow> 'a list" where
  "uniq [] = []"
| "uniq (x # xs) = x # uniq (filter (\<lambda>y. y \<noteq> x) xs)"

text \<open>
  The query of \<^verbatim>\<open>search_versions\<close>: the filter on the dataset, then
  \<^verbatim>\<open>created_at.between(start, end)\<close> (inclusive), then the equality on
  \<^verbatim>\<open>change_type\<close> (never true of a null column), then
  \<^verbatim>\<open>query.join(models.SchemaVersion).filter(column_name.in_(names))\<close>: one joined
  row per schema row of the version whose column name is in the list.
\<close>

definition search_rows :: "'v database \<Rightarrow> uuid \<Rightarrow> filters \<Rightarrow> version list" where
  "search_rows db ds f =
     (let query = filter (\<lambda>v. dataset_id v = ds) (versions db);
          query = (case date_range f of
                     None \<Rightarrow> query
                   | Some (start, stop) \<Rightarrow>
                       filter (\<lambda>v. start \<le> created_at v \<and> created_at v \<le> stop) query);
          query = (case f_change_type f of
                     None \<Rightarrow> query
                   | Some t \<Rightarrow> filter (\<lambda>v. change_type v = Some t) query)
      in case schema_changes f of
           None \<Rightarrow> query
         | Some names \<Rightarrow>
             uniq (concat (map (\<lambda>v. map (\<lambda>sv. v)
                     (filter (\<lambda>sv. column_name sv \<in> set names) (version_schema db v))) query)))"

definition search_versions :: "'v database \<Rightarrow> uuid \<Rightarrow> filters \<Rightarrow> version_result list" where
  "search_versions db ds f = map (format_version_result db) (search_rows db ds f)"

text \<open>
  The search in the words of the specification, for comparison: the versions
  of the dataset that pass every supplied filter, the column filter asking
  for every listed name in the version's schema snapshot.
\<close>

definition search_rows_spec :: "'v database \<Rightarrow> uuid \<Rightarrow> filters \<Rightarrow> version list" where
  "search_rows_spec db ds f =
     filter (\<lambda>v. dataset_id v = ds
        \<and> (case date_range f of None \<Rightarrow> True
            | Some (start, stop) \<Rightarrow> start \<le> created_at v \<and> created_at v \<le> stop)
        \<and> (case f_change_type f of None \<Rightarrow> True | Some t \<Rightarrow> change_type v = Some t)
        \<and> (case schema_changes f of None \<Rightarrow> True
            | Some names \<Rightarrow> set names \<subseteq> column_name ` set (version_schema db v)))
       (versions db)"

text \<open>A dataset with two versions; the second adds column \<^verbatim>\<open>b\<close>.\<close>

definition search_example_db :: "int database" where
  "search_example_db =
     \<lparr>datasets = [''d''],
      versions =
        [\<lparr>version_id = ''v1'', dataset_id = ''d'', version_number = ''1.0'', created_at = 10,
          created_by = ''u'', change_type = Some INSERT, comment = None\<rparr>,
         \<lparr>version_id = ''v2'', dataset_id = ''d'', version_number = ''1.1'', created_at = 20,
          created_by = ''u'', change_type = Some UPDATE, comment = None\<rparr>],
      schema_versions =
        [\<lparr>column_name = ''a'', data_type = ''int'', is_nullable = True, description = None,
          sv_version_id = ''v1''\<rparr>,
         \<lparr>column_name = ''a'', data_type = ''int'', is_nullable = True, description = None,
          sv_version_id = ''v2''\<rparr>,
         \<lparr>column_name = ''b'', data_type = ''int'', is_nullable = True, description = None,
          sv_version_id = ''v2''\<rparr>],
      change_logs = []\<rparr>"

section \<open>The two read paths\<close>

text \<open>
  The two endpoints return dicts of different shapes: \<^verbatim>\<open>get_specific_version\<close>
  one with the version's columns, its schema rows and \<^verbatim>\<open>complete_data\<close>;
  \<^verbatim>\<open>get_version_with_cache\<close> one with the keys \<^verbatim>\<open>version_info\<close> and \<^verbatim>\<open>data\<close>.
  A response is one or the other.
\<close>

record 'v version_info =
  vi_version_id :: uuid
  vi_version_number :: string
  vi_created_at :: nat
  vi_created_by :: uuid
  vi_change_type :: "operation option"
  vi_comment :: "string option"
  vi_schema_definition :: "schema_version list"
  complete_data :: "'v row list"

record 'v cached_version =
  version_info :: version_result
  cached_data :: "'v payload list"

datatype 'v response = VersionInfo "'v version_info" | CachedVersion "'v cached_version"

text \<open>
  \<^verbatim>\<open>db.query(Version).filter(dataset_id == ..., version_number == ...).first()\<close>
\<close>

definition find_version :: "'v database \<Rightarrow> uuid \<Rightarrow> string \<Rightarrow> version option" where
  "find_version db ds vn = find (\<lambda>v. dataset_id v = ds \<and> version_number v = vn) (versions db)"

text \<open>
  The change logs of \<^verbatim>\<open>get_specific_version\<close>: \<^verbatim>\<open>ChangeLog\<close> joined with
  \<^verbatim>\<open>Version\<close> on the version id, kept when the version is of the dataset and
  not created after the queried one, ordered by the version's creation time.
  Entries of equal creation time stay in storage order (\<open>sort_key\<close> is stable).
\<close>

definition change_logs_upto :: "'v database \<Rightarrow> uuid \<Rightarrow> version \<Rightarrow> 'v change_log list" where
  "change_logs_upto db ds version =
     map fst (sort_key (\<lambda>(cl, v). created_at v)
       (concat (map (\<lambda>cl. map (\<lambda>v. (cl, v))
          (filter (\<lambda>v. version_id v = cl_version_id cl \<and> dataset_id v = ds
                       \<and> created_at v \<le> created_at version) (versions db)))
          (change_logs db))))"

definition get_specific_version :: "'v database \<Rightarrow> uuid \<Rightarrow> string \<Rightarrow> error + 'v response" where
  "get_specific_version db ds vn =
     (case find_version db ds vn of
        None \<Rightarrow> Inl (HTTPException 404)
      | Some version \<Rightarrow>
          (case replay (change_logs_upto db ds version) of
             Inl e \<Rightarrow> Inl e
           | Inr rows \<Rightarrow>
               Inr (VersionInfo
                 \<lparr>vi_version_id = version_id version,
                  vi_version_number = version_number version,
                  vi_created_at = created_at version,
                  vi_created_by = created_by version,
                  vi_change_type = change_type version,
                  vi_comment = comment version,
                  vi_schema_definition = version_schema db version,
                  complete_data = rows\<rparr>)))"

text \<open>
  The cache: Redis keys to values. \<^verbatim>\<open>cache_version\<close> stores
  \<^verbatim>\<open>zlib.compress(json.dumps(data).encode())\<close> and \<^verbatim>\<open>get_cached_version\<close> returns
  \<^verbatim>\<open>json.loads(zlib.decompress(...).decode())\<close>, the value that was stored, so the
  cache is modelled as holding the values themselves. An entry that has
  expired is an absent key. A stored response is never falsy
  (\<^verbatim>\<open>if cached_data:\<close>): it is a dict with keys.
\<close>

type_synonym 'v cache = "string \<rightharpoonup> 'v response"

definition redis_key :: "string \<Rightarrow> string" where
  "redis_key version_key = ''version:'' @ version_key"

definition get_cached_version :: "'v cache \<Rightarrow> string \<Rightarrow> 'v response option" where
  "get_cached_version cache version_key = cache (redis_key version_key)"

definition cache_version :: "'v cache \<Rightarrow> string \<Rightarrow> 'v response \<Rightarrow> 'v cache" where
  "cache_version cache version_key d = cache(redis_key version_key \<mapsto> d)"

text \<open>\<^verbatim>\<open>get_version_with_cache\<close> returns its result and the cache as it leaves it.\<close>

definition get_version_with_cache ::
  "'v cache \<Rightarrow> 'v database \<Rightarrow> uuid \<Rightarrow> string \<Rightarrow> (error + 'v response) \<times> 'v cache" where
  "get_version_with_cache cache db ds vn =
     (let cache_key = ds @ '':'' @ vn in
      case get_cached_version cache cache_key of
        Some cached \<Rightarrow> (Inr cached, cache)
      | None \<Rightarrow>
          (case find_version db ds vn of
             None \<Rightarrow> (Inl (HTTPException 404), cache)
           | Some version \<Rightarrow>
               (let result = CachedVersion
                      \<lparr>version_info = format_version_result db version,
                       cached_data = map changed_data (version_changes db version)\<rparr>
                in (Inr result, cache_version cache cache_key result))))"

text \<open>
  A dataset with two versions: the first inserts record 1 as initial data,
  the second has an INSERT entry adding record 2.
\<close>

definition read_example_db :: "int database" where
  "read_example_db =
     \<lparr>datasets = [''d''],
      versions =
        [\<lparr>version_id = ''v1'', dataset_id = ''d'', version_number = ''1.0'', created_at = 10,
          created_by = ''u'', change_type = Some INSERT, comment = None\<rparr>,
         \<lparr>version_id = ''v2'', dataset_id = ''d'', version_number = ''1.1'', created_at = 20,
          created_by = ''u'', change_type = Some INSERT, comment = None\<rparr>],
      schema_versions = [],
      change_logs =
        [\<lparr>cl_version_id = ''v1'', operation_type = INSERT,
          changed_data = [''initial_data'' \<mapsto> [[''id'' \<mapsto> 1]]]\<rparr>,
         \<lparr>cl_version_id = ''v2'', operation_type = INSERT,
          changed_data = [''added'' \<mapsto> [[''id'' \<mapsto> 2]]]\<rparr>]\<rparr>"

section \<open>Bulk insertion (\<^verbatim>\<open>bulk_insert\<close>)\<close>

text \<open>
  A \<^verbatim>\<open>models.ChangeLog\<close> object as a writer constructs it, before the database
  has accepted it: the columns above and \<^verbatim>\<open>changed_by\<close>, which is \<^verbatim>\<open>None\<close> when
  the constructor call does not set it (the column has no default).
\<close>

record 'v pending_change_log = "'v change_log" +
  changed_by :: "uuid option"

text \<open>
  The SQLAlchemy session as far as \<^verbatim>\<open>bulk_insert\<close> uses it: the database as
  committed, and the objects added since the last commit. \<^verbatim>\<open>db.add\<close> only
  records the object (\<^verbatim>\<open>core/database.py\<close> sets \<^verbatim>\<open>autoflush=False\<close>);
  \<^verbatim>\<open>db.rollback\<close> drops what is pending and cannot touch a committed row.
\<close>

record 'v session =
  stored :: "'v database"
  pending :: "'v pending_change_log list"

definition db_add :: "'v session \<Rightarrow> 'v pending_change_log \<Rightarrow> 'v session" where
  "db_add db cl = db\<lparr>pending := pending db @ [cl]\<rparr>"

definition db_rollback :: "'v session \<Rightarrow> 'v session" where
  "db_rollback db = db\<lparr>pending := []\<rparr>"

text \<open>
  \<^verbatim>\<open>db.commit\<close> flushes the pending objects as \<^verbatim>\<open>INSERT\<close> statements, and the
  database (PostgreSQL, \<^verbatim>\<open>core/database.py\<close>) checks the constraints that
  \<^verbatim>\<open>models.ChangeLog\<close> declares:
  \<^verbatim>\<open>changed_by = Column(..., ForeignKey('users.id'), nullable=False)\<close> and
  \<^verbatim>\<open>version_id = Column(..., ForeignKey('versions.version_id'), nullable=False)\<close>.
  A row without \<^verbatim>\<open>changed_by\<close>, or whose \<^verbatim>\<open>version_id\<close> is not the identifier of
  a stored version, is refused. The table of users is not part of the model:
  a row that names a user is taken to name an existing one. When a row is
  refused the flush raises (\<^verbatim>\<open>IntegrityError\<close>), nothing of the transaction is
  stored, and the commit returns \<open>Inl ()\<close>.
\<close>

definition insertable :: "'v database \<Rightarrow> 'v pending_change_log \<Rightarrow> bool" where
  "insertable d cl \<longleftrightarrow>
     changed_by cl \<noteq> None \<and> cl_version_id cl \<in> set (map version_id (versions d))"

definition stored_row :: "'v pending_change_log \<Rightarrow> 'v change_log" where
  "stored_row cl =
     \<lparr>cl_version_id = cl_version_id cl, operation_type = operation_type cl,
      changed_data = changed_data cl\<rparr>"

definition db_commit :: "'v session \<Rightarrow> unit + 'v session" where
  "db_commit db =
     (if list_all (insertable (stored db)) (pending db)
      then Inr \<lparr>stored = (stored db)\<lparr>change_logs :=
                   change_logs (stored db) @ map stored_row (pending db)\<rparr>,
                pending = []\<rparr>
      else Inl ())"

text \<open>
  Besides the constraints, a call can fail for reasons outside the code (the
  connection to the database, for one); these are an input: nothing else
  fails, or processing chunk \<open>j\<close> raises before its object is added, or the
  commit in the iteration of chunk \<open>j\<close> raises, or the final commit raises.
  Chunks are numbered from 0.
\<close>

datatype fault = NoFault | AddFails nat | CommitFails nat | FinalCommitFails

text \<open>
  \<^verbatim>\<open>models.ChangeLog(version_id=dataset_id, operation_type="INSERT",
  changed_data={"batch_data": batch_data})\<close>: the version identifier is the
  identifier of the dataset, and \<^verbatim>\<open>changed_by\<close> is not given.
\<close>

definition batch_change_log :: "uuid \<Rightarrow> 'v row list \<Rightarrow> 'v pending_change_log" where
  "batch_change_log ds batch_data =
     \<lparr>cl_version_id = ds, operation_type = INSERT,
      changed_data = [''batch_data'' \<mapsto> batch_data], changed_by = None\<rparr>"

text \<open>
  The loop \<^verbatim>\<open>for i in range(0, len(df), batch_size)\<close>, from the value \<open>i\<close> of
  the loop variable on: \<^verbatim>\<open>batch = df[i:i + batch_size]\<close>, the object is added,
  the count grows by \<^verbatim>\<open>len(batch)\<close>, and
  \<^verbatim>\<open>if i % (batch_size * 5) == 0: db.commit()\<close>. The result is \<open>Inl ()\<close> when an
  exception left the loop. \<open>df\<close> is the list of the rows of the DataFrame, as
  \<^verbatim>\<open>to_dict('records')\<close> gives them.
\<close>

function bulk_loop ::
  "fault \<Rightarrow> uuid \<Rightarrow> nat \<Rightarrow> 'v row list \<Rightarrow> nat \<Rightarrow> nat \<Rightarrow> 'v session
     \<Rightarrow> (unit + nat) \<times> 'v session" where
  "bulk_loop flt ds batch_size df i total_records db =
     (if batch_size = 0 \<or> length df \<le> i then (Inr total_records, db)
      else if flt = AddFails (i div batch_size) then (Inl (), db)
      else
        let batch = take batch_size (drop i df);
            db1 = db_add db (batch_change_log ds batch);
            total_records1 = total_records + length batch
        in if i mod (batch_size * 5) = 0
           then (if flt = CommitFails (i div batch_size) then (Inl (), db1)
                 else case db_commit db1 of
                        Inl u \<Rightarrow> (Inl (), db1)
                      | Inr db2 \<Rightarrow>
                          bulk_loop flt ds batch_size df (i + batch_size) total_records1 db2)
           else bulk_loop flt ds batch_size df (i + batch_size) total_records1 db1)"
  by pat_completeness auto
termination
  by (relation "measure (\<lambda>(flt, ds, batch_size, df, i, total_records, db). length df - i)") auto

declare bulk_loop.simps [simp del]

text \<open>
  \<^verbatim>\<open>bulk_insert\<close>: the \<^verbatim>\<open>try\<close> block with the final commit, and the handler
  that rolls back and raises \<^verbatim>\<open>HTTPException(500)\<close>. \<open>frame\<close> stands for
  \<^verbatim>\<open>pd.DataFrame(data)\<close> read back row by row; pandas is a library, not code of
  the repository, and nothing is assumed of it here (it fills the keys a
  record lacks, for one). The batch size is a natural number: the route
  admits 1 to 5000, and with 0 \<^verbatim>\<open>range\<close> raises \<^verbatim>\<open>ValueError\<close> inside the \<^verbatim>\<open>try\<close>.
\<close>

definition bulk_insert ::
  "('v row list \<Rightarrow> 'v row list) \<Rightarrow> fault \<Rightarrow> 'v session \<Rightarrow> uuid \<Rightarrow> 'v row list \<Rightarrow> nat
     \<Rightarrow> (error + nat) \<times> 'v session" where
  "bulk_insert frame flt db ds data_rows batch_size =
     (let df = frame data_rows in
      if batch_size = 0 then (Inl (HTTPException 500), db_rollback db)
      else
        case bulk_loop flt ds batch_size df 0 0 db of
          (Inl u, db1) \<Rightarrow> (Inl (HTTPException 500), db_rollback db1)
        | (Inr total_records, db1) \<Rightarrow>
            if flt = FinalCommitFails then (Inl (HTTPException 500), db_rollback db1)
            else (case db_commit db1 of
                    Inl u \<Rightarrow> (Inl (HTTPException 500), db_rollback db1)
                  | Inr db2 \<Rightarrow> (Inr total_records, db2)))"

text \<open>
  A session on a database that holds dataset \<^verbatim>\<open>d\<close> with its first version
  \<^verbatim>\<open>v1\<close> and the initial data, nothing pending.
\<close>

definition bulk_example_session :: "int session" where
  "bulk_example_session =
     \<lparr>stored =
        \<lparr>datasets = [''d''],
         versions =
           [\<lparr>version_id = ''v1'', dataset_id = ''d'', version_number = ''1.0'',
             created_at = 10, created_by = ''u'', change_type = Some INSERT, comment = None\<rparr>],
         schema_versions = [],
         change_logs =
           [\<lparr>cl_version_id = ''v1'', operation_type = INSERT,
             changed_data = [''initial_data'' \<mapsto> [[''id'' \<mapsto> 0]]]\<rparr>]\<rparr>,
      pending = []\<rparr>"

section \<open>Version numbers (\<^verbatim>\<open>create_new_version\<close>)\<close>

subsection \<open>Python floats, as far as the version numbers need them\<close>

text \<open>
  \<^verbatim>\<open>new_version_number = f"{float(latest_version.version_number) + 0.1:.1f}"\<close>
  computes in IEEE 754 binary64. A finite binary64 value is a rational number,
  and each operation is the exact operation followed by rounding to the
  nearest representable value, ties to the even significand. The model below
  follows that definition; it leaves out overflow to infinity (\<open>2\<^sup>1\<^sup>0\<^sup>2\<^sup>4\<close> and
  beyond) and negative results of formatting, which version numbers never
  reach.
\<close>

text \<open>Rounding to the nearest integer, ties to even.\<close>

definition round_half_even :: "rat \<Rightarrow> int" where
  "round_half_even x =
     (let f = \<lfloor>x\<rfloor>; r = x - of_int f
      in if r < 1 / 2 then f else if 1 / 2 < r then f + 1 else if even f then f else f + 1)"

text \<open>\<open>\<lfloor>log\<^sub>2 n\<rfloor>\<close> for \<open>n \<ge> 1\<close>, and the binary exponent of a positive rational.\<close>

fun log2_nat :: "nat \<Rightarrow> nat" where
  "log2_nat n = (if n < 2 then 0 else Suc (log2_nat (n div 2)))"

declare log2_nat.simps [simp del]

definition log2_floor :: "rat \<Rightarrow> int" where
  "log2_floor x =
     (if 1 \<le> x then int (log2_nat (nat \<lfloor>x\<rfloor>))
      else - int (log2_nat (nat (\<lceil>1 / x\<rceil> - 1))) - 1)"

text \<open>
  The binary64 value nearest to \<open>x\<close>: 53 significant bits at the exponent of
  \<open>x\<close>, or at the least exponent \<open>-1022\<close> for a subnormal result.
\<close>

definition round_double :: "rat \<Rightarrow> rat" where
  "round_double x =
     (if x = 0 then 0
      else let e = max (log2_floor \<bar>x\<bar>) (- 1022); u = 2 powi (e - 52)
           in of_int (round_half_even (x / u)) * u)"

text \<open>
  \<^verbatim>\<open>float(s)\<close> for a string of decimal digits, a point and decimal digits, the
  shape of every version number the system writes: the nearest binary64 value.
  On any other string the model gives \<open>None\<close> (Python accepts some of them,
  signs and exponents for instance, and raises \<^verbatim>\<open>ValueError\<close> on the rest).
\<close>

definition digit_val :: "char \<Rightarrow> nat option" where
  "digit_val c =
     map_of [(CHR ''0'', 0), (CHR ''1'', 1), (CHR ''2'', 2), (CHR ''3'', 3), (CHR ''4'', 4),
             (CHR ''5'', 5), (CHR ''6'', 6), (CHR ''7'', 7), (CHR ''8'', 8), (CHR ''9'', 9)] c"

fun parse_digits :: "nat \<Rightarrow> string \<Rightarrow> nat option" where
  "parse_digits acc [] = Some acc"
| "parse_digits acc (c # cs) =
     (case digit_val c of None \<Rightarrow> None | Some d \<Rightarrow> parse_digits (10 * acc + d) cs)"

definition parse_nat :: "string \<Rightarrow> nat option" where
  "parse_nat s = (if s = [] then None else parse_digits 0 s)"

definition float_of_string :: "string \<Rightarrow> rat option" where
  "float_of_string s =
     (case dropWhile (\<lambda>c. c \<noteq> CHR ''.'') s of
        [] \<Rightarrow> None
      | dot # fpart \<Rightarrow>
          (case (parse_nat (takeWhile (\<lambda>c. c \<noteq> CHR ''.'') s), parse_nat fpart) of
             (Some a, Some b) \<Rightarrow> Some (round_double (of_nat a + of_nat b / 10 ^ length fpart))
           | _ \<Rightarrow> None))"

text \<open>
  The format \<^verbatim>\<open>.1f\<close> of a value \<open>x \<ge> 0\<close>: the decimal with one fractional digit
  nearest to the exact value of \<open>x\<close>, ties to even.
\<close>

definition digit_char :: "nat \<Rightarrow> char" where
  "digit_char d = ''0123456789'' ! d"

function string_of_nat :: "nat \<Rightarrow> string" where
  "string_of_nat n =
     (if n < 10 then [digit_char n] else string_of_nat (n div 10) @ [digit_char (n mod 10)])"
  by pat_completeness auto
termination
  by (relation "measure id") auto

declare string_of_nat.simps [simp del]

definition format_1f :: "rat \<Rightarrow> string option" where
  "format_1f x =
     (if x < 0 then None
      else let n = nat (round_half_even (x * 10))
           in Some (string_of_nat (n div 10) @ ''.'' @ string_of_nat (n mod 10)))"

text \<open>The line of the source; the literal \<^verbatim>\<open>0.1\<close> is the binary64 value nearest to 1/10.\<close>

definition next_version_number :: "string \<Rightarrow> string option" where
  "next_version_number s =
     (case float_of_string s of
        None \<Rightarrow> None
      | Some x \<Rightarrow> format_1f (round_double (x + round_double (1 / 10))))"

text \<open>The decimal string of \<open>k\<close> tenths: \<open>decimal1 12\<close> is \<^verbatim>\<open>1.2\<close>.\<close>

definition decimal1 :: "nat \<Rightarrow> string" where
  "decimal1 k = string_of_nat (k div 10) @ ''.'' @ string_of_nat (k mod 10)"

subsection \<open>Creating a version\<close>

text \<open>The request body \<^verbatim>\<open>schemas.VersionCreate\<close>.\<close>

record 'v version_create =
  vc_data :: "'v row list"
  vc_schema_changes :: "schema_definition list option"
  vc_comment :: "string option"
  vc_change_type :: operation

text \<open>
  \<^verbatim>\<open>db.query(Version).filter(dataset_id == ...).order_by(created_at.desc()).first()\<close>:
  the first row when the dataset's versions are sorted by descending creation
  time (among rows of equal time the database may return any; the stable sort
  picks the first stored).
\<close>

definition latest_version :: "'v database \<Rightarrow> uuid \<Rightarrow> version option" where
  "latest_version db ds =
     (case sort_key (\<lambda>v. - int (created_at v))
             (filter (\<lambda>v. dataset_id v = ds) (versions db)) of
        [] \<Rightarrow> None
      | v # vs \<Rightarrow> Some v)"

text \<open>A schema row of the new version, from a supplied column or a copied row.\<close>

definition schema_row :: "uuid \<Rightarrow> 'a schema_definition_scheme \<Rightarrow> schema_version" where
  "schema_row vid sc =
     \<lparr>column_name = column_name sc, data_type = data_type sc, is_nullable = is_nullable sc,
      description = description sc, sv_version_id = vid\<rparr>"

text \<open>
  \<^verbatim>\<open>create_new_version\<close>. The identifier and the creation time of the new row are
  column defaults (\<^verbatim>\<open>uuid.uuid4\<close>, \<^verbatim>\<open>func.now()\<close>), so they are inputs here. A
  dataset without any version makes \<^verbatim>\<open>latest_version.version_number\<close> raise
  \<^verbatim>\<open>AttributeError\<close>. \<^verbatim>\<open>if version.schema_changes:\<close> holds for a non-empty list.
\<close>

definition create_new_version ::
  "'v database \<Rightarrow> uuid \<Rightarrow> 'v version_create \<Rightarrow> uuid \<Rightarrow> uuid \<Rightarrow> nat
     \<Rightarrow> error + 'v database \<times> version" where
  "create_new_version db ds vc current_user new_id now =
     (if ds \<notin> set (datasets db) then Inl (HTTPException 404)
      else
        case latest_version db ds of
          None \<Rightarrow> Inl AttributeError
        | Some latest \<Rightarrow>
            (case next_version_number (version_number latest) of
               None \<Rightarrow> Inl UnmodelledFloat
             | Some new_version_number \<Rightarrow>
                 let new_version =
                       \<lparr>version_id = new_id, dataset_id = ds,
                        version_number = new_version_number, created_at = now,
                        created_by = current_user, change_type = Some (vc_change_type vc),
                        comment = vc_comment vc\<rparr>;
                     new_schema =
                       (case vc_schema_changes vc of
                          Some (c # cs) \<Rightarrow> map (schema_row new_id) (c # cs)
                        | _ \<Rightarrow> map (schema_row new_id) (version_schema db latest));
                     change_log =
                       new_version_change_log new_id (vc_change_type vc) (vc_data vc)
                 in Inr (db\<lparr>versions := versions db @ [new_version],
                            schema_versions := schema_versions db @ new_schema,
                            change_logs := change_logs db @ [change_log]\<rparr>,
                         new_version)))"

text \<open>
  Versions created one after the other; each request comes with the user, the
  new identifier and the time of creation.
\<close>

fun create_versions ::
  "'v database \<Rightarrow> uuid \<Rightarrow> ('v version_create \<times> uuid \<times> uuid \<times> nat) list
     \<Rightarrow> error + 'v database" where
  "create_versions db ds [] = Inr db"
| "create_versions db ds ((vc, current_user, new_id, now) # requests) =
     (case create_new_version db ds vc current_user new_id now of
        Inl e \<Rightarrow> Inl e
      | Inr (db', v) \<Rightarrow> create_versions db' ds requests)"

text \<open>The versions of a dataset, in storage order.\<close>

definition dataset_versions :: "'v database \<Rightarrow> uuid \<Rightarrow> version list" where
  "dataset_versions db ds = filter (\<lambda>v. dataset_id v = ds) (versions db)"

text \<open>A dataset as \<^verbatim>\<open>create_dataset\<close> leaves it: one version, numbered \<^verbatim>\<open>1.0\<close>.\<close>

definition numbering_example_db :: "int database" where
  "numbering_example_db =
     \<lparr>datasets = [''d''],
      versions =
        [\<lparr>version_id = ''v1'', dataset_id = ''d'', version_number = ''1.0'', created_at = 10,
          created_by = ''u'', change_type = Some INSERT, comment = None\<rparr>],
      schema_versions =
        [\<lparr>column_name = ''id'', data_type = ''int'', is_nullable = False, description = None,
          sv_version_id = ''v1''\<rparr>],
      change_logs =
        [\<lparr>cl_version_id = ''v1'', operation_type = INSERT,
          changed_data = [''initial_data'' \<mapsto> [[''id'' \<mapsto> 1]]]\<rparr>]\<rparr>"

section \<open>Properties of the replay fold\<close>

lemma replay_from_append:
  "replay_from acc (xs @ ys) =
     (case replay_from acc xs of Inl e \<Rightarrow> Inl e | Inr acc' \<Rightarrow> replay_from acc' ys)"
  by (induction xs arbitrary: acc) (auto split: sum.splits)

lemma replay_snoc:
  "replay (cls @ [cl]) =
     (case replay cls of Inl e \<Rightarrow> Inl e | Inr acc \<Rightarrow> apply_change_log acc cl)"
  by (simp add: replay_def replay_from_append split: sum.splits)

lemma row_neqI: "(m :: 'v row) k \<noteq> n k \<Longrightarrow> m \<noteq> n"
  by auto

subsection \<open>UPDATE\<close>

text \<open>The specification-side merge, read along the list.\<close>

lemma merge_first_spec_Nil [simp]: "merge_first_spec p [] = []"
  by (simp add: merge_first_spec_def)

lemma merge_first_spec_Cons [simp]:
  "merge_first_spec p (e # es) =
     (if e ''id'' = p ''id'' then merge_fields_spec e p # es else e # merge_first_spec p es)"
  by (simp add: merge_first_spec_def Let_def)

lemma merge_first_spec_no_match:
  "\<forall>e\<in>set acc. e ''id'' \<noteq> p ''id'' \<Longrightarrow> merge_first_spec p acc = acc"
  by (induction acc) auto

lemma merge_first_spec_match:
  "\<forall>x\<in>set pre. x ''id'' \<noteq> p ''id'' \<Longrightarrow> e ''id'' = p ''id'' \<Longrightarrow>
   merge_first_spec p (pre @ e # post) = pre @ merge_fields_spec e p # post"
  by (induction pre) auto

lemma merge_fields_spec_map_add: "merge_fields_spec e p = e ++ p"
  by (rule ext) (simp add: merge_fields_spec_def map_add_def split: option.splits)

lemma update_existing_merge_first:
  "\<forall>e\<in>set acc. ''id'' \<in> dom e \<Longrightarrow> ''id'' \<in> dom p \<Longrightarrow>
   update_existing p acc = Inr (merge_first_spec p acc)"
proof (induction acc)
  case Nil
  then show ?case by simp
next
  case (Cons e acc)
  from Cons.prems obtain eid rid where ids: "e ''id'' = Some eid" "p ''id'' = Some rid"
    by auto
  have IH: "update_existing p acc = Inr (merge_first_spec p acc)"
    using Cons by simp
  show ?case
    by (simp add: ids IH merge_fields_spec_map_add)
qed

lemma merge_first_spec_keeps_ids:
  "\<forall>e\<in>set acc. ''id'' \<in> dom e \<Longrightarrow> ''id'' \<in> dom p \<Longrightarrow>
   \<forall>e\<in>set (merge_first_spec p acc). ''id'' \<in> dom e"
  by (induction acc) (simp_all add: merge_fields_spec_map_add)

lemma apply_modified_update_spec:
  "\<forall>e\<in>set acc. ''id'' \<in> dom e \<Longrightarrow> \<forall>p\<in>set ps. ''id'' \<in> dom p \<Longrightarrow>
   apply_modified ps acc = Inr (update_spec acc ps)"
proof (induction ps arbitrary: acc)
  case Nil
  then show ?case by (simp add: update_spec_def)
next
  case (Cons p ps)
  have 1: "update_existing p acc = Inr (merge_first_spec p acc)"
    using Cons.prems by (simp add: update_existing_merge_first)
  have 2: "\<forall>e\<in>set (merge_first_spec p acc). ''id'' \<in> dom e"
    by (rule merge_first_spec_keeps_ids) (use Cons.prems in simp_all)
  show ?case
    using Cons.IH[OF 2] Cons.prems(2) 1 by (simp add: update_spec_def)
qed

text \<open>
  C1 as stated fails: the fold reads \<^verbatim>\<open>existing_record["id"]\<close> of every accumulator
  record it scans, so an accumulator record without an \<^verbatim>\<open>id\<close> field makes the
  UPDATE raise \<^verbatim>\<open>KeyError\<close> instead of dropping the unmatched partial record.
  Here the accumulator is \<^verbatim>\<open>[{x: 1}]\<close> and the partial record \<^verbatim>\<open>{id: 1, x: 9}\<close>.
\<close>

theorem replay_update_keyerror_counterexample:
  "replay
     [\<lparr>cl_version_id = ''v1'', operation_type = INSERT,
       changed_data = [''initial_data'' \<mapsto> [[''x'' \<mapsto> (1::int)]]]\<rparr>,
      \<lparr>cl_version_id = ''v2'', operation_type = UPDATE,
       changed_data = [''modified'' \<mapsto> [[''id'' \<mapsto> 1, ''x'' \<mapsto> 9]]]\<rparr>]
   = Inl KeyError"
  by (simp add: replay_def apply_change_log_def get_list_def)

text \<open>
  C1, amended: for every change-log sequence whose replay yields an accumulator
  in which every record has an \<^verbatim>\<open>id\<close> field, and every following UPDATE entry
  whose \<^verbatim>\<open>modified\<close> list holds partial records each with an \<^verbatim>\<open>id\<close> field,
  the fold raises no error and its result is the specification's: each partial
  record in turn is merged into the first accumulator record with an equal
  \<^verbatim>\<open>id\<close>, the fields it does not mention are kept, and a partial record
  without a match changes nothing.
\<close>

theorem replay_update_merges_by_id:
  assumes "replay cls = Inr acc"
    and "operation_type cl = UPDATE"
    and "changed_data cl ''modified'' = Some ps"
    and "\<forall>p\<in>set ps. ''id'' \<in> dom p"
    and "\<forall>e\<in>set acc. ''id'' \<in> dom e"
  shows "replay (cls @ [cl]) = Inr (update_spec acc ps)"
  using assms
  by (simp add: replay_snoc apply_change_log_def get_list_def apply_modified_update_spec)

theorem replay_update_merges_by_id_witness:
  "replay
     [\<lparr>cl_version_id = ''v1'', operation_type = INSERT,
       changed_data = [''initial_data'' \<mapsto>
         [[''id'' \<mapsto> (1::int), ''x'' \<mapsto> 1], [''id'' \<mapsto> 2, ''x'' \<mapsto> 2]]]\<rparr>,
      \<lparr>cl_version_id = ''v2'', operation_type = UPDATE,
       changed_data = [''modified'' \<mapsto> [[''id'' \<mapsto> 1, ''x'' \<mapsto> 9], [''id'' \<mapsto> 7, ''x'' \<mapsto> 0]]]\<rparr>]
   = Inr [[''id'' \<mapsto> 1, ''x'' \<mapsto> 9], [''id'' \<mapsto> 2, ''x'' \<mapsto> 2]]"
proof -
  let ?ins = "\<lparr>cl_version_id = ''v1'', operation_type = INSERT,
       changed_data = [''initial_data'' \<mapsto>
         [[''id'' \<mapsto> (1::int), ''x'' \<mapsto> 1], [''id'' \<mapsto> 2, ''x'' \<mapsto> 2]]]\<rparr>"
  let ?upd = "\<lparr>cl_version_id = ''v2'', operation_type = UPDATE,
       changed_data = [''modified'' \<mapsto> [[''id'' \<mapsto> (1::int), ''x'' \<mapsto> 9], [''id'' \<mapsto> 7, ''x'' \<mapsto> 0]]]\<rparr>"
  let ?acc = "[[''id'' \<mapsto> (1::int), ''x'' \<mapsto> 1], [''id'' \<mapsto> 2, ''x'' \<mapsto> 2]]"
  let ?ps = "[[''id'' \<mapsto> (1::int), ''x'' \<mapsto> 9], [''id'' \<mapsto> 7, ''x'' \<mapsto> 0]]"
  have a: "replay [?ins] = Inr ?acc"
    by (simp add: replay_def apply_change_log_def get_list_def)
  have "replay ([?ins] @ [?upd]) = Inr (update_spec ?acc ?ps)"
    by (rule replay_update_merges_by_id [OF a]) simp_all
  then show ?thesis
    by (simp add: update_spec_def merge_fields_spec_map_add)
qed

subsection \<open>DELETE\<close>

text \<open>
  C2: for every change-log sequence and every following DELETE entry whose
  payload has a \<^verbatim>\<open>deleted\<close> list, the fold removes exactly the accumulator
  records for which some record of the list has the same value at every field
  name (the same fields with equal values); a record that differs from each
  deleted record at some field, whatever their \<^verbatim>\<open>id\<close>s, is kept, in place.
\<close>

theorem replay_delete_by_value:
  assumes "replay cls = Inr acc"
    and "operation_type cl = DELETE"
    and "changed_data cl ''deleted'' = Some ds"
  shows "replay (cls @ [cl]) = Inr (filter (\<lambda>r. \<forall>d\<in>set ds. \<exists>k. r k \<noteq> d k) acc)"
proof -
  have differ: "r \<noteq> d \<Longrightarrow> \<exists>k. r k \<noteq> d k" for r d :: "'a row"
    by (meson ext)
  have "(r \<notin> set ds) = (\<forall>d\<in>set ds. \<exists>k. r k \<noteq> d k)" for r
  proof
    assume "r \<notin> set ds"
    then have "r \<noteq> d" if "d \<in> set ds" for d
      using that by auto
    then show "\<forall>d\<in>set ds. \<exists>k. r k \<noteq> d k"
      using differ by simp
  next
    assume "\<forall>d\<in>set ds. \<exists>k. r k \<noteq> d k"
    then show "r \<notin> set ds"
      by auto
  qed
  then have "filter (\<lambda>r. r \<notin> set ds) acc = filter (\<lambda>r. \<forall>d\<in>set ds. \<exists>k. r k \<noteq> d k) acc"
    by simp
  then show ?thesis
    using assms by (simp add: replay_snoc apply_change_log_def get_list_def)
qed

theorem replay_delete_by_value_witness:
  "replay
     [\<lparr>cl_version_id = ''v1'', operation_type = INSERT,
       changed_data = [''initial_data'' \<mapsto>
         [[''id'' \<mapsto> (1::int), ''x'' \<mapsto> 1], [''id'' \<mapsto> 2, ''x'' \<mapsto> 2]]]\<rparr>,
      \<lparr>cl_version_id = ''v2'', operation_type = DELETE,
       changed_data = [''deleted'' \<mapsto> [[''id'' \<mapsto> 1, ''x'' \<mapsto> 2], [''x'' \<mapsto> 2, ''id'' \<mapsto> 2]]]\<rparr>]
   = Inr [[''id'' \<mapsto> 1, ''x'' \<mapsto> 1]]"
proof -
  let ?ins = "\<lparr>cl_version_id = ''v1'', operation_type = INSERT,
       changed_data = [''initial_data'' \<mapsto>
         [[''id'' \<mapsto> (1::int), ''x'' \<mapsto> 1], [''id'' \<mapsto> 2, ''x'' \<mapsto> 2]]]\<rparr>"
  let ?del = "\<lparr>cl_version_id = ''v2'', operation_type = DELETE,
       changed_data = [''deleted'' \<mapsto> [[''id'' \<mapsto> (1::int), ''x'' \<mapsto> 2], [''x'' \<mapsto> 2, ''id'' \<mapsto> 2]]]\<rparr>"
  let ?r1 = "[''id'' \<mapsto> (1::int), ''x'' \<mapsto> 1]"
  let ?r2 = "[''id'' \<mapsto> (2::int), ''x'' \<mapsto> 2]"
  let ?d1 = "[''id'' \<mapsto> (1::int), ''x'' \<mapsto> 2]"
  let ?d2 = "[''x'' \<mapsto> (2::int), ''id'' \<mapsto> 2]"
  have a: "replay [?ins] = Inr [?r1, ?r2]"
    by (simp add: replay_def apply_change_log_def get_list_def)
  have b: "replay ([?ins] @ [?del])
             = Inr (filter (\<lambda>r. \<forall>d\<in>set [?d1, ?d2]. \<exists>k. r k \<noteq> d k) [?r1, ?r2])"
    by (rule replay_delete_by_value [OF a]) simp_all
  have k1: "\<exists>k. ?r1 k \<noteq> ?d1 k" by (rule exI [of _ "''x''"]) simp
  have k2: "\<exists>k. ?r1 k \<noteq> ?d2 k" by (rule exI [of _ "''x''"]) simp
  have k3: "\<not> (\<exists>k. ?r2 k \<noteq> ?d2 k)" by simp
  show ?thesis
    using b k1 k2 k3 by simp
qed

subsection \<open>INSERT\<close>

lemma replay_from_inserts:
  "list_all2 (\<lambda>c d. operation_type c = INSERT \<and> changed_data c ''initial_data'' = None
                    \<and> changed_data c ''added'' = Some d) cs ds \<Longrightarrow>
   replay_from acc cs = Inr (acc @ concat ds)"
proof (induction cs ds arbitrary: acc rule: list_all2_induct)
  case Nil
  then show ?case by simp
next
  case (Cons c cs d ds)
  then have "apply_change_log acc c = Inr (acc @ d)"
    by (simp add: apply_change_log_def get_list_def)
  then show ?case
    using Cons.IH [of "acc @ d"] by simp
qed

text \<open>
  C3: for every change-log sequence of INSERT entries, the first with an
  \<^verbatim>\<open>initial_data\<close> list and each later one with an \<^verbatim>\<open>added\<close> list (and no
  \<^verbatim>\<open>initial_data\<close>), the fold returns the initial records followed by the
  added lists, in entry order: later INSERT entries extend the accumulator,
  none replaces it.
\<close>

theorem replay_insert_only_concat:
  assumes "operation_type c0 = INSERT"
    and "changed_data c0 ''initial_data'' = Some d0"
    and "list_all2 (\<lambda>c d. operation_type c = INSERT \<and> changed_data c ''initial_data'' = None
                        \<and> changed_data c ''added'' = Some d) cs ds"
  shows "replay (c0 # cs) = Inr (d0 @ concat ds)"
proof -
  have "apply_change_log [] c0 = Inr d0"
    using assms(1,2) by (simp add: apply_change_log_def get_list_def)
  then show ?thesis
    using replay_from_inserts [OF assms(3), of d0] by (simp add: replay_def)
qed

theorem replay_insert_only_concat_witness:
  "replay
     [\<lparr>cl_version_id = ''v1'', operation_type = INSERT,
       changed_data = [''initial_data'' \<mapsto> [[''id'' \<mapsto> (1::int)], [''id'' \<mapsto> 2]]]\<rparr>,
      \<lparr>cl_version_id = ''v2'', operation_type = INSERT,
       changed_data = [''added'' \<mapsto> [[''id'' \<mapsto> 3]]]\<rparr>,
      \<lparr>cl_version_id = ''v3'', operation_type = INSERT,
       changed_data = [''added'' \<mapsto> [[''id'' \<mapsto> 4], [''id'' \<mapsto> 1]]]\<rparr>]
   = Inr [[''id'' \<mapsto> 1], [''id'' \<mapsto> 2], [''id'' \<mapsto> 3], [''id'' \<mapsto> 4], [''id'' \<mapsto> 1]]"
  using replay_insert_only_concat
    [of "\<lparr>cl_version_id = ''v1'', operation_type = INSERT,
          changed_data = [''initial_data'' \<mapsto> [[''id'' \<mapsto> (1::int)], [''id'' \<mapsto> 2]]]\<rparr>"
        "[[''id'' \<mapsto> (1::int)], [''id'' \<mapsto> 2]]"
        "[\<lparr>cl_version_id = ''v2'', operation_type = INSERT,
           changed_data = [''added'' \<mapsto> [[''id'' \<mapsto> (3::int)]]]\<rparr>,
          \<lparr>cl_version_id = ''v3'', operation_type = INSERT,
           changed_data = [''added'' \<mapsto> [[''id'' \<mapsto> 4], [''id'' \<mapsto> 1]]]\<rparr>]"
        "[[[''id'' \<mapsto> (3::int)]], [[''id'' \<mapsto> 4], [''id'' \<mapsto> 1]]]"]
  by simp

subsection \<open>Entries written by \<^verbatim>\<open>create_new_version\<close>\<close>

lemma apply_new_version_change_log:
  "apply_change_log acc (new_version_change_log vid op data_rows) = Inr acc"
  by (cases op)
     (simp_all add: apply_change_log_def new_version_change_log_def get_list_def)

text \<open>
  C10: the entry \<^verbatim>\<open>create_new_version\<close> stores keeps its data under the single
  key \<^verbatim>\<open>changes\<close>, which the fold never reads: whatever the change type and the
  data, a replay that runs through such an entry gives what the replay of the
  sequence without the entry gives, at that version and at every later one.
\<close>

theorem replay_ignores_new_version_change_log:
  "dom (changed_data (new_version_change_log vid op data_rows)) = {''changes''}
   \<and> replay (before @ new_version_change_log vid op data_rows # after)
       = replay (before @ after)"
proof -
  have "replay_from acc (new_version_change_log vid op data_rows # after)
          = replay_from acc after" for acc
    by (simp add: apply_new_version_change_log)
  then show ?thesis
    by (simp add: replay_def replay_from_append new_version_change_log_def split: sum.splits)
qed

theorem replay_ignores_new_version_change_log_witness:
  "replay
     [\<lparr>cl_version_id = ''v1'', operation_type = INSERT,
       changed_data = [''initial_data'' \<mapsto> [[''id'' \<mapsto> (1::int)]]]\<rparr>,
      new_version_change_log ''v2'' DELETE [[''id'' \<mapsto> 1]]]
   = Inr [[''id'' \<mapsto> 1]]"
  using replay_ignores_new_version_change_log
    [of "''v2''" DELETE "[[''id'' \<mapsto> (1::int)]]"
        "[\<lparr>cl_version_id = ''v1'', operation_type = INSERT,
           changed_data = [''initial_data'' \<mapsto> [[''id'' \<mapsto> (1::int)]]]\<rparr>]" "[]"]
  by (simp add: replay_def apply_change_log_def get_list_def)

section \<open>Properties of the schema compatibility checker\<close>

lemma map_of_fold_update:
  "map_of (fold (\<lambda>col d. AList.update (column_name col) col d) s d) =
     map_of d ++ map_of (rev (map (\<lambda>col. (column_name col, col)) s))"
proof (induction s arbitrary: d)
  case Nil
  then show ?case by simp
next
  case (Cons a s)
  have "(map_of d)(column_name a \<mapsto> a) = map_of d ++ [column_name a \<mapsto> a]"
    by simp
  then show ?case
    by (simp add: Cons.IH update_conv' del: map_add_upd)
qed

lemma map_of_columns_by_name:
  assumes "distinct (map column_name s)"
  shows "map_of (columns_by_name s) c = Some col \<longleftrightarrow> col \<in> set s \<and> column_name col = c"
proof -
  let ?kv = "map (\<lambda>col. (column_name col, col)) s"
  have d: "distinct (map fst (rev ?kv))"
    using assms by (simp add: comp_def rev_map [symmetric])
  have "map_of (columns_by_name s) c = map_of (rev ?kv) c"
    by (simp add: columns_by_name_def map_of_fold_update)
  also have "\<dots> = Some col \<longleftrightarrow> (c, col) \<in> set (rev ?kv)"
    using d by (rule map_of_eq_Some_iff)
  finally show ?thesis by auto
qed

lemma distinct_fold_update:
  "distinct (map fst d) \<Longrightarrow>
   distinct (map fst (fold (\<lambda>col d. AList.update (column_name col) col d) s d))"
  by (induction s arbitrary: d) (simp_all add: distinct_update)

lemma distinct_columns_by_name: "distinct (map fst (columns_by_name s))"
  by (simp add: columns_by_name_def distinct_fold_update)

lemma removed_warnings_absent:
  "c \<notin> fst ` set oc \<Longrightarrow> count_list (removed_warnings oc nc) (Removed c) = 0"
  by (induction oc) (auto simp: removed_warnings_def)

lemma removed_warnings_Cons:
  "removed_warnings ((k, v) # oc) nc =
     (if map_of nc k = None then [Removed k] else []) @ removed_warnings oc nc"
  by (simp add: removed_warnings_def)

lemma count_removed_warnings:
  "distinct (map fst oc) \<Longrightarrow>
   count_list (removed_warnings oc nc) (Removed c)
     = (if c \<in> fst ` set oc \<and> map_of nc c = None then 1 else 0)"
proof (induction oc)
  case Nil
  then show ?case by (simp add: removed_warnings_def)
next
  case (Cons a oc)
  obtain k v where a: "a = (k, v)" by (cases a)
  show ?case
  proof (cases "k = c")
    case True
    then have "c \<notin> fst ` set oc" using Cons.prems a by auto
    then have "count_list (removed_warnings oc nc) (Removed c) = 0"
      by (rule removed_warnings_absent)
    then show ?thesis
      using True by (simp add: a removed_warnings_Cons)
  next
    case False
    then show ?thesis
      using Cons by (simp add: a removed_warnings_Cons)
  qed
qed

lemma removed_warnings_only_removed:
  "count_list (removed_warnings oc nc) (TypeChanged c t t') = 0"
  "count_list (removed_warnings oc nc) (NullableNarrowed c) = 0"
  by (induction oc) (auto simp: removed_warnings_def)

lemma modified_warnings_absent:
  "c \<notin> fst ` set nc \<Longrightarrow> count_list (modified_warnings oc nc) (TypeChanged c t t') = 0"
  "c \<notin> fst ` set nc \<Longrightarrow> count_list (modified_warnings oc nc) (NullableNarrowed c) = 0"
  "count_list (modified_warnings oc nc) (Removed c) = 0"
  by (induction nc) (auto simp: modified_warnings_def split: option.splits)

lemma modified_warnings_Cons:
  "modified_warnings oc ((k, v) # nc) =
      (case map_of oc k of None \<Rightarrow> []
       | Some old_col \<Rightarrow>
          (if data_type v \<noteq> data_type old_col
           then [TypeChanged k (data_type old_col) (data_type v)] else [])
          @ (if is_nullable old_col \<and> \<not> is_nullable v then [NullableNarrowed k] else []))
      @ modified_warnings oc nc"
  by (simp add: modified_warnings_def)

lemma count_type_changed:
  "distinct (map fst nc) \<Longrightarrow>
   count_list (modified_warnings oc nc) (TypeChanged c t t')
     = (if \<exists>old_col new_col. map_of oc c = Some old_col \<and> map_of nc c = Some new_col
            \<and> data_type old_col = t \<and> data_type new_col = t' \<and> t \<noteq> t' then 1 else 0)"
proof (induction nc)
  case Nil
  then show ?case by (simp add: modified_warnings_def)
next
  case (Cons a nc)
  obtain k v where a: "a = (k, v)" by (cases a)
  show ?case
  proof (cases "k = c")
    case True
    then have "c \<notin> fst ` set nc" using Cons.prems a by auto
    then have "count_list (modified_warnings oc nc) (TypeChanged c t t') = 0"
      by (rule modified_warnings_absent)
    then show ?thesis
      using True by (auto simp: a modified_warnings_Cons split: option.splits)
  next
    case False
    then show ?thesis
      using Cons by (auto simp: a modified_warnings_Cons split: option.splits)
  qed
qed

lemma count_nullable_narrowed:
  "distinct (map fst nc) \<Longrightarrow>
   count_list (modified_warnings oc nc) (NullableNarrowed c)
     = (if \<exists>old_col new_col. map_of oc c = Some old_col \<and> map_of nc c = Some new_col
            \<and> is_nullable old_col \<and> \<not> is_nullable new_col then 1 else 0)"
proof (induction nc)
  case Nil
  then show ?case by (simp add: modified_warnings_def)
next
  case (Cons a nc)
  obtain k v where a: "a = (k, v)" by (cases a)
  show ?case
  proof (cases "k = c")
    case True
    then have "c \<notin> fst ` set nc" using Cons.prems a by auto
    then have "count_list (modified_warnings oc nc) (NullableNarrowed c) = 0"
      by (rule modified_warnings_absent)
    then show ?thesis
      using True by (auto simp: a modified_warnings_Cons split: option.splits)
  next
    case False
    then show ?thesis
      using Cons by (auto simp: a modified_warnings_Cons split: option.splits)
  qed
qed


lemma keys_columns_by_name: "fst ` set (columns_by_name s) = column_name ` set s"
proof -
  have "fst ` set (columns_by_name s) = dom (map_of (columns_by_name s))"
    by (simp add: dom_map_of_conv_image_fst)
  also have "\<dots> = column_name ` set s"
    by (simp add: columns_by_name_def map_of_fold_update dom_map_of_conv_image_fst image_image)
  finally show ?thesis .
qed

text \<open>
  C8: for every pair of schemas (lists of column definitions, the names unique
  within each, as in a schema snapshot), the warning list is the rendering of
  a list in which: a column of the old schema that is absent from the new one
  has exactly one "removed" warning, and no other column has one; a column of
  both whose declared type changed has exactly one "type changed" warning,
  naming the old and the new type, and there is no other such warning; a column
  of both that went from nullable to non-nullable has exactly one narrowing
  warning, and no other column has one. The three rules are counted
  independently, so all that apply are reported; a column that is not in the
  old schema (a newly added one) is the subject of no warning.
\<close>

theorem schema_warnings_exactly_once:
  assumes "distinct (map column_name old_schema)"
    and "distinct (map column_name new_schema)"
  shows "validate_schema_compatibility old_schema new_schema
           = map render (schema_warnings old_schema new_schema)
    \<and> count_list (schema_warnings old_schema new_schema) (Removed c)
        = (if c \<in> column_name ` set old_schema \<and> c \<notin> column_name ` set new_schema
           then 1 else 0)
    \<and> count_list (schema_warnings old_schema new_schema) (TypeChanged c t t')
        = (if (\<exists>old_col\<in>set old_schema. \<exists>new_col\<in>set new_schema.
                 column_name old_col = c \<and> column_name new_col = c
                 \<and> data_type old_col = t \<and> data_type new_col = t') \<and> t \<noteq> t'
           then 1 else 0)
    \<and> count_list (schema_warnings old_schema new_schema) (NullableNarrowed c)
        = (if \<exists>old_col\<in>set old_schema. \<exists>new_col\<in>set new_schema.
                 column_name old_col = c \<and> column_name new_col = c
                 \<and> is_nullable old_col \<and> \<not> is_nullable new_col
           then 1 else 0)
    \<and> (c \<notin> column_name ` set old_schema
         \<longrightarrow> c \<notin> warning_column ` set (schema_warnings old_schema new_schema))"
proof -
  let ?oc = "columns_by_name old_schema" and ?nc = "columns_by_name new_schema"
  let ?ws = "schema_warnings old_schema new_schema"
  note mo = map_of_columns_by_name [OF assms(1)] and mn = map_of_columns_by_name [OF assms(2)]
  have none: "map_of ?nc c = None \<longleftrightarrow> c \<notin> column_name ` set new_schema"
    by (simp add: map_of_eq_None_iff keys_columns_by_name)
  have ws: "?ws = removed_warnings ?oc ?nc @ modified_warnings ?oc ?nc"
    by (simp add: schema_warnings_def Let_def)
  have r: "count_list ?ws (Removed c)
        = (if c \<in> column_name ` set old_schema \<and> c \<notin> column_name ` set new_schema
           then 1 else 0)"
    by (simp add: ws count_removed_warnings distinct_columns_by_name modified_warnings_absent
        keys_columns_by_name none)
  have t: "count_list ?ws (TypeChanged c t t')
        = (if (\<exists>old_col\<in>set old_schema. \<exists>new_col\<in>set new_schema.
                 column_name old_col = c \<and> column_name new_col = c
                 \<and> data_type old_col = t \<and> data_type new_col = t') \<and> t \<noteq> t'
           then 1 else 0)" for t t'
  proof -
    have "(\<exists>old_col new_col. map_of ?oc c = Some old_col \<and> map_of ?nc c = Some new_col
            \<and> data_type old_col = t \<and> data_type new_col = t' \<and> t \<noteq> t')
        \<longleftrightarrow> ((\<exists>old_col\<in>set old_schema. \<exists>new_col\<in>set new_schema.
                 column_name old_col = c \<and> column_name new_col = c
                 \<and> data_type old_col = t \<and> data_type new_col = t') \<and> t \<noteq> t')"
      unfolding mo mn by blast
    then show ?thesis
      by (simp add: ws count_type_changed distinct_columns_by_name removed_warnings_only_removed)
  qed
  have n: "count_list ?ws (NullableNarrowed c)
        = (if \<exists>old_col\<in>set old_schema. \<exists>new_col\<in>set new_schema.
                 column_name old_col = c \<and> column_name new_col = c
                 \<and> is_nullable old_col \<and> \<not> is_nullable new_col
           then 1 else 0)"
  proof -
    have "(\<exists>old_col new_col. map_of ?oc c = Some old_col \<and> map_of ?nc c = Some new_col
            \<and> is_nullable old_col \<and> \<not> is_nullable new_col)
        \<longleftrightarrow> (\<exists>old_col\<in>set old_schema. \<exists>new_col\<in>set new_schema.
                 column_name old_col = c \<and> column_name new_col = c
                 \<and> is_nullable old_col \<and> \<not> is_nullable new_col)"
      unfolding mo mn by blast
    then show ?thesis
      by (simp add: ws count_nullable_narrowed distinct_columns_by_name removed_warnings_only_removed)
  qed
  have added: "c \<notin> warning_column ` set ?ws" if absent: "c \<notin> column_name ` set old_schema"
  proof
    assume "c \<in> warning_column ` set ?ws"
    then obtain w where w: "w \<in> set ?ws" "warning_column w = c" by auto
    then have pos: "count_list ?ws w \<noteq> 0" by (simp add: count_list_0_iff)
    show False
    proof (cases w)
      case (Removed x)
      then show ?thesis using pos w(2) r absent by auto
    next
      case (TypeChanged x y z)
      then show ?thesis using pos w(2) t [of y z] absent by (auto split: if_splits)
    next
      case (NullableNarrowed x)
      then show ?thesis using pos w(2) n absent by (auto split: if_splits)
    qed
  qed
  show ?thesis
    using r t n added by (simp add: validate_schema_compatibility_def)
qed

theorem schema_warnings_exactly_once_witness:
  "validate_schema_compatibility
     [\<lparr>column_name = ''a'', data_type = ''int'', is_nullable = True, description = None\<rparr>,
      \<lparr>column_name = ''b'', data_type = ''int'', is_nullable = True, description = None\<rparr>]
     [\<lparr>column_name = ''a'', data_type = ''str'', is_nullable = False, description = None\<rparr>,
      \<lparr>column_name = ''c'', data_type = ''int'', is_nullable = True, description = None\<rparr>]
   = [''Column '' @ quoted ''b'' @ '' has been removed'',
      ''Data type changed for column '' @ quoted ''a'' @ '': int -> str'',
      ''Column '' @ quoted ''a'' @ '' changed from nullable to non-nullable'']
   \<and> count_list (schema_warnings
     [\<lparr>column_name = ''a'', data_type = ''int'', is_nullable = True, description = None\<rparr>,
      \<lparr>column_name = ''b'', data_type = ''int'', is_nullable = True, description = None\<rparr>]
     [\<lparr>column_name = ''a'', data_type = ''str'', is_nullable = False, description = None\<rparr>,
      \<lparr>column_name = ''c'', data_type = ''int'', is_nullable = True, description = None\<rparr>])
     (Removed ''b'') = 1
   \<and> ''c'' \<notin> warning_column ` set (schema_warnings
     [\<lparr>column_name = ''a'', data_type = ''int'', is_nullable = True, description = None\<rparr>,
      \<lparr>column_name = ''b'', data_type = ''int'', is_nullable = True, description = None\<rparr>]
     [\<lparr>column_name = ''a'', data_type = ''str'', is_nullable = False, description = None\<rparr>,
      \<lparr>column_name = ''c'', data_type = ''int'', is_nullable = True, description = None\<rparr>])"
proof -
  let ?old = "[\<lparr>column_name = ''a'', data_type = ''int'', is_nullable = True, description = None\<rparr>,
      \<lparr>column_name = ''b'', data_type = ''int'', is_nullable = True, description = None\<rparr>]"
  let ?new = "[\<lparr>column_name = ''a'', data_type = ''str'', is_nullable = False, description = None\<rparr>,
      \<lparr>column_name = ''c'', data_type = ''int'', is_nullable = True, description = None\<rparr>]"
  have ws: "schema_warnings ?old ?new
      = [Removed ''b'', TypeChanged ''a'' ''int'' ''str'', NullableNarrowed ''a'']"
    by (simp add: schema_warnings_def columns_by_name_def removed_warnings_def
        modified_warnings_def)
  have d: "distinct (map column_name ?old)" "distinct (map column_name ?new)"
    by simp_all
  from schema_warnings_exactly_once [OF d, of "''b''" "''int''" "''str''"]
  have b: "validate_schema_compatibility ?old ?new = map render (schema_warnings ?old ?new)"
    and c: "count_list (schema_warnings ?old ?new) (Removed ''b'') = 1"
    by simp_all
  from schema_warnings_exactly_once [OF d, of "''c''" "''int''" "''str''"]
  have e: "''c'' \<notin> warning_column ` set (schema_warnings ?old ?new)"
    by simp
  have "map render (schema_warnings ?old ?new)
      = [''Column '' @ quoted ''b'' @ '' has been removed'',
         ''Data type changed for column '' @ quoted ''a'' @ '': int -> str'',
         ''Column '' @ quoted ''a'' @ '' changed from nullable to non-nullable'']"
    unfolding ws by simp
  with b have a: "validate_schema_compatibility ?old ?new
      = [''Column '' @ quoted ''b'' @ '' has been removed'',
         ''Data type changed for column '' @ quoted ''a'' @ '': int -> str'',
         ''Column '' @ quoted ''a'' @ '' changed from nullable to non-nullable'']"
    by (rule trans)
  from a c e show ?thesis
    by (intro conjI)
qed

section \<open>Properties of the version search\<close>

lemma set_uniq: "set (uniq xs) = set xs"
  by (induction xs rule: uniq.induct) auto

lemma distinct_uniq: "distinct (uniq xs)"
  by (induction xs rule: uniq.induct) (auto simp: set_uniq)

text \<open>
  C9 as stated fails: the column filter is \<^verbatim>\<open>column_name.in_(names)\<close> on the joined
  schema rows, so a version is returned as soon as one of the listed names is
  in its schema snapshot. With the names \<^verbatim>\<open>a\<close> and \<^verbatim>\<open>b\<close>, the search returns
  version 1.0, whose snapshot has \<^verbatim>\<open>a\<close> only, and version 1.1; the search of the
  specification returns version 1.1 alone.
\<close>

theorem search_versions_all_columns_counterexample:
  "search_versions search_example_db ''d''
      \<lparr>date_range = None, f_change_type = None, schema_changes = Some [''a'', ''b'']\<rparr>
    = [\<lparr>r_version_id = ''v1'', r_version_number = ''1.0'', r_created_at = 10,
        r_change_type = Some INSERT, r_schema_versions = [(''a'', ''int'', True)]\<rparr>,
       \<lparr>r_version_id = ''v2'', r_version_number = ''1.1'', r_created_at = 20,
        r_change_type = Some UPDATE,
        r_schema_versions = [(''a'', ''int'', True), (''b'', ''int'', True)]\<rparr>]
   \<and> map (format_version_result search_example_db)
       (search_rows_spec search_example_db ''d''
          \<lparr>date_range = None, f_change_type = None, schema_changes = Some [''a'', ''b'']\<rparr>)
    = [\<lparr>r_version_id = ''v2'', r_version_number = ''1.1'', r_created_at = 20,
        r_change_type = Some UPDATE,
        r_schema_versions = [(''a'', ''int'', True), (''b'', ''int'', True)]\<rparr>]"
  by (simp add: search_versions_def search_rows_def search_rows_spec_def search_example_db_def
      version_schema_def format_version_result_def)

text \<open>
  C9, amended: for every dataset and every combination of the optional filters,
  the search returns the formatted rows of exactly the versions of that dataset
  that pass all supplied filters: creation time within the inclusive range,
  change type equal to the given one, and at least one of the given column
  names in the version's schema snapshot (so no version for an empty list of
  names). No version is returned twice when the table holds none twice.
\<close>

theorem search_versions_any_column:
  "search_versions db ds f = map (format_version_result db) (search_rows db ds f)
   \<and> set (search_rows db ds f) =
     {v \<in> set (versions db). dataset_id v = ds
        \<and> (case date_range f of None \<Rightarrow> True
            | Some (start, stop) \<Rightarrow> start \<le> created_at v \<and> created_at v \<le> stop)
        \<and> (case f_change_type f of None \<Rightarrow> True | Some t \<Rightarrow> change_type v = Some t)
        \<and> (case schema_changes f of None \<Rightarrow> True
            | Some names \<Rightarrow> \<exists>sv\<in>set (version_schema db v). column_name sv \<in> set names)}
   \<and> (distinct (versions db) \<longrightarrow> distinct (search_rows db ds f))"
  by (auto simp: search_versions_def search_rows_def set_uniq distinct_uniq Let_def
           split: option.splits)

theorem search_versions_any_column_witness:
  "search_rows search_example_db ''d''
      \<lparr>date_range = Some (15, 20), f_change_type = Some UPDATE,
       schema_changes = Some [''b'', ''z'']\<rparr>
    = [\<lparr>version_id = ''v2'', dataset_id = ''d'', version_number = ''1.1'', created_at = 20,
        created_by = ''u'', change_type = Some UPDATE, comment = None\<rparr>]
   \<and> distinct (search_rows search_example_db ''d''
      \<lparr>date_range = Some (15, 20), f_change_type = Some UPDATE,
       schema_changes = Some [''b'', ''z'']\<rparr>)"
proof -
  let ?f = "\<lparr>date_range = Some (15, 20), f_change_type = Some UPDATE,
       schema_changes = Some [''b'', ''z'']\<rparr>"
  have d: "distinct (versions search_example_db)"
    by (simp add: search_example_db_def)
  have "distinct (versions search_example_db)
          \<longrightarrow> distinct (search_rows search_example_db ''d'' ?f)"
    using search_versions_any_column [of search_example_db "''d''" ?f] by (elim conjE)
  with d have 1: "distinct (search_rows search_example_db ''d'' ?f)"
    by (rule rev_mp)
  have 2: "search_rows search_example_db ''d'' ?f
    = [\<lparr>version_id = ''v2'', dataset_id = ''d'', version_number = ''1.1'', created_at = 20,
        created_by = ''u'', change_type = Some UPDATE, comment = None\<rparr>]"
    by (simp add: search_rows_def search_example_db_def version_schema_def)
  from 2 1 show ?thesis
    by (intro conjI)
qed

section \<open>Properties of the two read paths\<close>

text \<open>
  C6 as stated fails: on a miss \<^verbatim>\<open>get_version_with_cache\<close> does not replay. It
  returns the version's summary and the raw payloads of that version's own
  change-log entries, under other keys than \<^verbatim>\<open>get_specific_version\<close> uses. For
  version 1.1 of the example the direct path returns the materialized records
  1 and 2; the cached path returns the one payload \<^verbatim>\<open>{added: [{id: 2}]}\<close>.
\<close>

theorem cached_read_differs_counterexample:
  "get_specific_version read_example_db ''d'' ''1.1''
     = Inr (VersionInfo
         \<lparr>vi_version_id = ''v2'', vi_version_number = ''1.1'', vi_created_at = 20,
          vi_created_by = ''u'', vi_change_type = Some INSERT, vi_comment = None,
          vi_schema_definition = [],
          complete_data = [[''id'' \<mapsto> 1], [''id'' \<mapsto> 2]]\<rparr>)
   \<and> fst (get_version_with_cache Map.empty read_example_db ''d'' ''1.1'')
     = Inr (CachedVersion
         \<lparr>version_info =
            \<lparr>r_version_id = ''v2'', r_version_number = ''1.1'', r_created_at = 20,
             r_change_type = Some INSERT, r_schema_versions = []\<rparr>,
          cached_data = [[''added'' \<mapsto> [[''id'' \<mapsto> 2]]]]\<rparr>)
   \<and> fst (get_version_with_cache Map.empty read_example_db ''d'' ''1.1'')
     \<noteq> get_specific_version read_example_db ''d'' ''1.1''"
  by (simp add: get_specific_version_def get_version_with_cache_def get_cached_version_def
      cache_version_def redis_key_def find_version_def read_example_db_def
      change_logs_upto_def version_schema_def version_changes_def format_version_result_def
      replay_def apply_change_log_def get_list_def Let_def)

text \<open>
  C6, amended: for every dataset and version number, with no intervening
  writes, a second call of the cached read path returns what the first call
  returned, from the cache when the first call stored its result. In detail:
  a call that finds the key in the cache returns the cached value and does
  not consult the database. On a miss the cached path does not run the replay
  of the direct path: it answers "not found" when the version is absent and
  leaves the cache as it was, and otherwise returns the version's summary with
  the raw payloads of that version's own change-log entries (a response of
  another shape than the direct path's, with no materialized record set) and
  stores this response under the key. After a call that returned a response
  the cache holds that response under the key, and a further call returns it
  from the cache, whatever the database holds by then; after a call that
  answered with an error the cache is unchanged and the same call gives the
  same error.
\<close>

theorem cached_read_repeatable:
  "(case get_cached_version cache (ds @ '':'' @ vn) of
      Some cached \<Rightarrow> get_version_with_cache cache db ds vn = (Inr cached, cache)
    | None \<Rightarrow>
        (case find_version db ds vn of
           None \<Rightarrow> get_version_with_cache cache db ds vn = (Inl (HTTPException 404), cache)
         | Some version \<Rightarrow>
             get_version_with_cache cache db ds vn
               = (Inr (CachedVersion
                        \<lparr>version_info = format_version_result db version,
                         cached_data = map changed_data (version_changes db version)\<rparr>),
                  cache_version cache (ds @ '':'' @ vn)
                    (CachedVersion
                        \<lparr>version_info = format_version_result db version,
                         cached_data = map changed_data (version_changes db version)\<rparr>))))
   \<and> (\<forall>r cache1. get_version_with_cache cache db ds vn = (Inr r, cache1) \<longrightarrow>
          get_cached_version cache1 (ds @ '':'' @ vn) = Some r
          \<and> (\<forall>db1. get_version_with_cache cache1 db1 ds vn = (Inr r, cache1)))
   \<and> (\<forall>e cache1. get_version_with_cache cache db ds vn = (Inl e, cache1) \<longrightarrow>
          cache1 = cache \<and> get_version_with_cache cache1 db ds vn = (Inl e, cache1))"
proof (intro conjI allI impI)
  show "case get_cached_version cache (ds @ '':'' @ vn) of
      Some cached \<Rightarrow> get_version_with_cache cache db ds vn = (Inr cached, cache)
    | None \<Rightarrow>
        (case find_version db ds vn of
           None \<Rightarrow> get_version_with_cache cache db ds vn = (Inl (HTTPException 404), cache)
         | Some version \<Rightarrow>
             get_version_with_cache cache db ds vn
               = (Inr (CachedVersion
                        \<lparr>version_info = format_version_result db version,
                         cached_data = map changed_data (version_changes db version)\<rparr>),
                  cache_version cache (ds @ '':'' @ vn)
                    (CachedVersion
                        \<lparr>version_info = format_version_result db version,
                         cached_data = map changed_data (version_changes db version)\<rparr>)))"
    by (simp add: get_version_with_cache_def Let_def split: option.splits)
next
  fix r cache1
  assume run: "get_version_with_cache cache db ds vn = (Inr r, cache1)"
  then show hit: "get_cached_version cache1 (ds @ '':'' @ vn) = Some r"
    by (auto simp: get_version_with_cache_def get_cached_version_def cache_version_def Let_def
        split: option.splits)
  fix db1
  show "get_version_with_cache cache1 db1 ds vn = (Inr r, cache1)"
    using hit by (simp add: get_version_with_cache_def Let_def)
next
  fix e cache1
  assume run: "get_version_with_cache cache db ds vn = (Inl e, cache1)"
  then show same: "cache1 = cache"
    by (auto simp: get_version_with_cache_def Let_def split: option.splits)
  show "get_version_with_cache cache1 db ds vn = (Inl e, cache1)"
    using run unfolding same .
qed

theorem cached_read_repeatable_witness:
  "get_version_with_cache Map.empty read_example_db ''d'' ''1.0''
     = (Inr (CachedVersion
         \<lparr>version_info =
            \<lparr>r_version_id = ''v1'', r_version_number = ''1.0'', r_created_at = 10,
             r_change_type = Some INSERT, r_schema_versions = []\<rparr>,
          cached_data = [[''initial_data'' \<mapsto> [[''id'' \<mapsto> (1::int)]]]]\<rparr>),
        [''version:d:1.0'' \<mapsto> CachedVersion
         \<lparr>version_info =
            \<lparr>r_version_id = ''v1'', r_version_number = ''1.0'', r_created_at = 10,
             r_change_type = Some INSERT, r_schema_versions = []\<rparr>,
          cached_data = [[''initial_data'' \<mapsto> [[''id'' \<mapsto> (1::int)]]]]\<rparr>])
   \<and> get_version_with_cache
        [''version:d:1.0'' \<mapsto> CachedVersion
         \<lparr>version_info =
            \<lparr>r_version_id = ''v1'', r_version_number = ''1.0'', r_created_at = 10,
             r_change_type = Some INSERT, r_schema_versions = []\<rparr>,
          cached_data = [[''initial_data'' \<mapsto> [[''id'' \<mapsto> (1::int)]]]]\<rparr>]
        \<lparr>datasets = [], versions = [], schema_versions = [], change_logs = []\<rparr> ''d'' ''1.0''
     = (Inr (CachedVersion
         \<lparr>version_info =
            \<lparr>r_version_id = ''v1'', r_version_number = ''1.0'', r_created_at = 10,
             r_change_type = Some INSERT, r_schema_versions = []\<rparr>,
          cached_data = [[''initial_data'' \<mapsto> [[''id'' \<mapsto> (1::int)]]]]\<rparr>),
        [''version:d:1.0'' \<mapsto> CachedVersion
         \<lparr>version_info =
            \<lparr>r_version_id = ''v1'', r_version_number = ''1.0'', r_created_at = 10,
             r_change_type = Some INSERT, r_schema_versions = []\<rparr>,
          cached_data = [[''initial_data'' \<mapsto> [[''id'' \<mapsto> (1::int)]]]]\<rparr>])"
proof -
  define X :: "int response" where "X = CachedVersion
         \<lparr>version_info =
            \<lparr>r_version_id = ''v1'', r_version_number = ''1.0'', r_created_at = 10,
             r_change_type = Some INSERT, r_schema_versions = []\<rparr>,
          cached_data = [[''initial_data'' \<mapsto> [[''id'' \<mapsto> 1]]]]\<rparr>"
  have run: "get_version_with_cache Map.empty read_example_db ''d'' ''1.0''
      = (Inr X, [''version:d:1.0'' \<mapsto> X])"
    by (simp add: get_version_with_cache_def get_cached_version_def cache_version_def
        redis_key_def find_version_def read_example_db_def version_schema_def
        version_changes_def format_version_result_def X_def Let_def)
  have again: "get_version_with_cache [''version:d:1.0'' \<mapsto> X]
        \<lparr>datasets = [], versions = [], schema_versions = [], change_logs = []\<rparr> ''d'' ''1.0''
      = (Inr X, [''version:d:1.0'' \<mapsto> X])"
    using cached_read_repeatable
      [where cache = Map.empty and db = read_example_db and ds = "''d''" and vn = "''1.0''"] run
    by blast
  from conjI [OF run again] show ?thesis
    unfolding X_def .
qed

section \<open>Properties of bulk insertion\<close>

text \<open>
  A commit is refused as soon as an object built by \<^verbatim>\<open>bulk_insert\<close> is pending:
  the object has no \<^verbatim>\<open>changed_by\<close>.
\<close>

lemma batch_change_log_not_insertable: "\<not> insertable d (batch_change_log ds batch)"
  by (simp add: insertable_def batch_change_log_def)

lemma db_commit_batch_pending:
  "db_commit (db_add db (batch_change_log ds batch)) = Inl ()"
  by (simp add: db_commit_def db_add_def batch_change_log_not_insertable)

lemma db_rollback_db_add: "db_rollback (db_add db cl) = db_rollback db"
  by (simp add: db_rollback_def db_add_def)

text \<open>
  The loop over a non-empty frame ends in its first iteration: the commit at
  \<open>i = 0\<close> raises, unless the iteration has raised before.
\<close>

lemma bulk_loop_first_chunk:
  assumes "0 < b" and "df \<noteq> []"
  shows "\<exists>db1. bulk_loop flt ds b df 0 0 db = (Inl (), db1) \<and> db_rollback db1 = db_rollback db"
proof (cases "flt = AddFails 0")
  case True
  then have "bulk_loop flt ds b df 0 0 db = (Inl (), db)"
    using assms by (subst bulk_loop.simps) simp
  then show ?thesis by simp
next
  case False
  then have "bulk_loop flt ds b df 0 0 db = (Inl (), db_add db (batch_change_log ds (take b df)))"
    using assms by (subst bulk_loop.simps) (simp add: Let_def db_commit_batch_pending)
  then show ?thesis by (simp add: db_rollback_db_add)
qed

lemma bulk_loop_empty: "bulk_loop flt ds b [] 0 0 db = (Inr 0, db)"
  by (subst bulk_loop.simps) simp

lemma bulk_insert_nonempty:
  assumes "frame data_rows \<noteq> []"
  shows "bulk_insert frame flt db ds data_rows b = (Inl (HTTPException 500), db_rollback db)"
proof (cases "b = 0")
  case True
  then show ?thesis by (simp add: bulk_insert_def)
next
  case False
  then obtain db1 where "bulk_loop flt ds b (frame data_rows) 0 0 db = (Inl (), db1)"
    and "db_rollback db1 = db_rollback db"
    using bulk_loop_first_chunk [of b "frame data_rows" flt ds db] assms by auto
  then show ?thesis using False by (simp add: bulk_insert_def)
qed

lemma bulk_insert_empty:
  assumes "frame data_rows = []"
  shows "bulk_insert frame flt db ds data_rows b =
     (if b = 0 \<or> flt = FinalCommitFails then (Inl (HTTPException 500), db_rollback db)
      else case db_commit db of
             Inl u \<Rightarrow> (Inl (HTTPException 500), db_rollback db)
           | Inr db2 \<Rightarrow> (Inr 0, db2))"
  using assms by (simp add: bulk_insert_def bulk_loop_empty)

text \<open>
  C4: for every record list, batch size and cause of failure, a call of
  \<^verbatim>\<open>bulk_insert\<close> that fails reports a processing error (status 500) and leaves
  the stored database as it was before the call, with nothing pending: no
  change-log entry created by the call remains committed, whatever the chunk
  at which the call failed.
\<close>

theorem bulk_insert_failure_rolls_back:
  assumes "bulk_insert frame flt db ds data_rows b = (Inl e, db')"
  shows "e = HTTPException 500 \<and> stored db' = stored db \<and> pending db' = []"
proof (cases "frame data_rows = []")
  case False
  then show ?thesis
    using assms bulk_insert_nonempty [of frame data_rows flt db ds b]
    by (auto simp: db_rollback_def)
next
  case True
  then show ?thesis
    using assms bulk_insert_empty [of frame data_rows flt db ds b]
    by (auto simp: db_rollback_def split: if_splits sum.splits)
qed

theorem bulk_insert_failure_rolls_back_witness:
  "bulk_insert (\<lambda>rows. rows) (AddFails 1) bulk_example_session ''d''
      [[''id'' \<mapsto> (1::int)], [''id'' \<mapsto> 2]] 1
     = (Inl (HTTPException 500), bulk_example_session)"
proof -
  let ?rows = "[[''id'' \<mapsto> (1::int)], [''id'' \<mapsto> 2]]"
  obtain r db' where run:
    "bulk_insert (\<lambda>rows. rows) (AddFails 1) bulk_example_session ''d'' ?rows 1 = (r, db')"
    by (cases "bulk_insert (\<lambda>rows. rows) (AddFails 1) bulk_example_session ''d'' ?rows 1")
  have r: "r = Inl (HTTPException 500)"
    using run
    by (simp add: bulk_insert_def bulk_loop.simps [of _ _ _ _ 0] db_add_def db_commit_def
        insertable_def batch_change_log_def bulk_example_session_def Let_def)
  have "stored db' = stored bulk_example_session \<and> pending db' = []"
    using bulk_insert_failure_rolls_back [OF run [unfolded r]] by simp
  then have "db' = bulk_example_session"
    by (cases db') (simp add: bulk_example_session_def)
  then show ?thesis using run r by simp
qed

text \<open>
  C5 does not hold of the code: for every record list that gives a non-empty
  frame, every batch size and whatever else happens, \<^verbatim>\<open>bulk_insert\<close> raises
  \<^verbatim>\<open>HTTPException(500)\<close>, stores no change-log entry and reports no count. The
  object of the first chunk is built without \<^verbatim>\<open>changed_by\<close> and with the
  dataset's identifier as \<^verbatim>\<open>version_id\<close>, the loop commits in its first
  iteration, and the database refuses the row. Five records with batch size 2
  give no entry and no count, where the claim has three entries and 5.
\<close>

theorem bulk_insert_nonempty_fails:
  assumes "frame data_rows \<noteq> []"
  shows "bulk_insert frame flt db ds data_rows b
           = (Inl (HTTPException 500), \<lparr>stored = stored db, pending = []\<rparr>)"
  using bulk_insert_nonempty [of frame data_rows flt db ds b] assms
  by (cases db) (simp add: db_rollback_def)

theorem bulk_insert_nonempty_fails_witness:
  "bulk_insert (\<lambda>rows. rows) NoFault bulk_example_session ''d''
      [[''id'' \<mapsto> (1::int)], [''id'' \<mapsto> 2], [''id'' \<mapsto> 3], [''id'' \<mapsto> 4], [''id'' \<mapsto> 5]] 2
     = (Inl (HTTPException 500), bulk_example_session)"
  using bulk_insert_nonempty_fails [of "\<lambda>rows. rows"
      "[[''id'' \<mapsto> (1::int)], [''id'' \<mapsto> 2], [''id'' \<mapsto> 3], [''id'' \<mapsto> 4], [''id'' \<mapsto> 5]]"
      NoFault bulk_example_session "''d''" 2]
  by (simp add: bulk_example_session_def)

section \<open>Properties of the version numbers\<close>

subsection \<open>Rounding\<close>

lemma round_half_even_error: "\<bar>of_int (round_half_even y) - y\<bar> \<le> 1 / 2"
proof -
  have "of_int \<lfloor>y\<rfloor> \<le> y" "y < of_int \<lfloor>y\<rfloor> + 1"
    by linarith+
  then show ?thesis
    by (auto simp: round_half_even_def Let_def)
qed

lemma round_half_even_unique:
  assumes "\<bar>y - of_int n\<bar> < 1 / 2"
  shows "round_half_even y = n"
proof (cases "of_int n \<le> y")
  case True
  then have "\<lfloor>y\<rfloor> = n"
    using assms by (intro floor_unique) auto
  then show ?thesis
    using assms True by (auto simp: round_half_even_def Let_def)
next
  case False
  then have "\<lfloor>y\<rfloor> = n - 1"
    using assms by (intro floor_unique) auto
  then show ?thesis
    using assms False by (auto simp: round_half_even_def Let_def)
qed

lemma log2_nat_le: "1 \<le> n \<Longrightarrow> 2 ^ log2_nat n \<le> n"
proof (induction n rule: log2_nat.induct)
  case (1 n)
  show ?case
  proof (cases "n < 2")
    case True
    then show ?thesis using "1.prems" by (simp add: log2_nat.simps [of n])
  next
    case False
    then have "2 ^ log2_nat (n div 2) \<le> n div 2"
      using "1.IH" by simp
    then have "2 * 2 ^ log2_nat (n div 2) \<le> n"
      by linarith
    then show ?thesis using False by (simp add: log2_nat.simps [of n])
  qed
qed

lemma round_double_error:
  assumes "0 < x" and "2 powi (max (log2_floor \<bar>x\<bar>) (- 1022)) \<le> x"
  shows "\<bar>round_double x - x\<bar> \<le> x / 2 ^ 53"
proof -
  define e where "e = max (log2_floor \<bar>x\<bar>) (- 1022)"
  define u :: rat where "u = 2 powi (e - 52)"
  have u: "0 < u" by (simp add: u_def)
  have ux: "u = 2 powi e / 2 ^ 52"
    by (simp add: u_def power_int_diff)
  have rd: "round_double x = of_int (round_half_even (x / u)) * u"
    using assms(1) by (simp add: round_double_def Let_def e_def u_def)
  have "(of_int (round_half_even (x / u)) - x / u) * u = round_double x - x"
    using u by (simp add: rd left_diff_distrib)
  then have "\<bar>round_double x - x\<bar> = \<bar>of_int (round_half_even (x / u)) - x / u\<bar> * \<bar>u\<bar>"
    by (simp only: abs_mult [symmetric])
  then have "\<bar>round_double x - x\<bar> = \<bar>of_int (round_half_even (x / u)) - x / u\<bar> * u"
    using u by simp
  also have "\<dots> \<le> 1 / 2 * u"
    using round_half_even_error [of "x / u"] u by (intro mult_right_mono) auto
  also have "\<dots> \<le> x / 2 ^ 53"
    using assms(2) by (simp add: ux e_def)
  finally show ?thesis .
qed

lemma round_double_error_ge1:
  assumes "1 \<le> x"
  shows "\<bar>round_double x - x\<bar> \<le> x / 2 ^ 53"
proof (rule round_double_error)
  show "0 < x" using assms by simp
  have n: "1 \<le> nat \<lfloor>x\<rfloor>" using assms by linarith
  have "log2_floor \<bar>x\<bar> = int (log2_nat (nat \<lfloor>x\<rfloor>))"
    using assms by (simp add: log2_floor_def)
  then have "2 powi (max (log2_floor \<bar>x\<bar>) (- 1022)) = (2::rat) ^ log2_nat (nat \<lfloor>x\<rfloor>)"
    by (simp add: max_def)
  also have "\<dots> = of_nat (2 ^ log2_nat (nat \<lfloor>x\<rfloor>))"
    by simp
  also have "\<dots> \<le> of_nat (nat \<lfloor>x\<rfloor>)"
    using log2_nat_le [OF n] by (simp only: of_nat_le_iff)
  also have "\<dots> \<le> x"
    using assms by linarith
  finally show "2 powi (max (log2_floor \<bar>x\<bar>) (- 1022)) \<le> x" .
qed

lemma point_one_error: "\<bar>round_double (1 / 10) - 1 / 10\<bar> \<le> (1 / 10) / 2 ^ 53"
proof (rule round_double_error)
  show "(0::rat) < 1 / 10" by simp
  have "log2_nat 9 = 3"
    by (simp add: log2_nat.simps)
  then have "log2_floor \<bar>1 / 10\<bar> = - 4"
    by (simp add: log2_floor_def)
  then show "2 powi (max (log2_floor \<bar>1 / 10\<bar>) (- 1022)) \<le> (1 / 10 :: rat)"
    by (simp add: power_int_minus)
qed


lemma next_tenth:
  fixes k :: nat
  assumes "10 \<le> k" and "k < 10 ^ 15"
  shows "round_half_even
           (round_double (round_double (of_nat k / 10) + round_double (1 / 10)) * 10)
         = int (k + 1)"
    and "0 \<le> round_double (round_double (of_nat k / 10) + round_double (1 / 10))"
proof -
  define x :: rat where "x = of_nat k / 10"
  define a where "a = round_double x"
  define c where "c = round_double (1 / 10)"
  define y where "y = a + c"
  define s where "s = round_double y"
  have x1: "1 \<le> x" using assms(1) by (simp add: x_def)
  have "(of_nat k :: rat) < of_nat (10 ^ 15)"
    using assms(2) by (simp only: of_nat_less_iff)
  then have x2: "x < 100000000000000" by (simp add: x_def)
  have p: "(2::rat) ^ 53 = 9007199254740992" by simp
  have ea: "\<bar>a - x\<bar> \<le> x / 2 ^ 53"
    unfolding a_def using x1 by (rule round_double_error_ge1)
  have ec: "\<bar>c - 1 / 10\<bar> \<le> (1 / 10) / 2 ^ 53"
    unfolding c_def by (rule point_one_error)
  have a1: "a - x \<le> x / 9007199254740992" and a2: "- (a - x) \<le> x / 9007199254740992"
    using abs_le_D1 [OF ea] abs_le_D2 [OF ea] unfolding p by simp_all
  have c1: "c - 1 / 10 \<le> (1 / 10) / 9007199254740992"
    and c2: "- (c - 1 / 10) \<le> (1 / 10) / 9007199254740992"
    using abs_le_D1 [OF ec] abs_le_D2 [OF ec] unfolding p by simp_all
  have kx: "of_nat k = 10 * x" by (simp add: x_def)
  have y1: "1 \<le> y"
    using a2 c2 x1 y_def by linarith
  have es: "\<bar>s - y\<bar> \<le> y / 2 ^ 53"
    unfolding s_def using y1 by (rule round_double_error_ge1)
  have s1: "s - y \<le> y / 9007199254740992" and s2: "- (s - y) \<le> y / 9007199254740992"
    using abs_le_D1 [OF es] abs_le_D2 [OF es] unfolding p by simp_all
  have up: "s * 10 - (of_nat k + 1) < 1 / 2"
    using a1 c1 s1 x1 x2 y_def kx by linarith
  have lo: "- (s * 10 - (of_nat k + 1)) < 1 / 2"
    using a2 c2 s2 x1 x2 y_def kx by linarith
  have "\<bar>s * 10 - (of_nat k + 1)\<bar> < 1 / 2"
    using up lo by (rule abs_less_iff [THEN iffD2, OF conjI])
  moreover have "(of_int (int (k + 1)) :: rat) = of_nat k + 1"
    by simp
  ultimately have "\<bar>s * 10 - of_int (int (k + 1))\<bar> < 1 / 2"
    by (simp only:)
  then have "round_half_even (s * 10) = int (k + 1)"
    by (rule round_half_even_unique)
  then show "round_half_even
           (round_double (round_double (of_nat k / 10) + round_double (1 / 10)) * 10)
         = int (k + 1)"
    by (simp add: s_def y_def a_def c_def x_def)
  have "0 \<le> s" using s2 y1 by linarith
  then show "0 \<le> round_double (round_double (of_nat k / 10) + round_double (1 / 10))"
    by (simp add: s_def y_def a_def c_def x_def)
qed

lemma digit_val_digit_char: "d < 10 \<Longrightarrow> digit_val (digit_char d) = Some d"
proof -
  assume "d < 10"
  then have "d = 0 \<or> d = 1 \<or> d = 2 \<or> d = 3 \<or> d = 4 \<or> d = 5 \<or> d = 6 \<or> d = 7 \<or> d = 8 \<or> d = 9"
    by arith
  then show ?thesis
    by (elim disjE) (simp_all add: digit_val_def digit_char_def)
qed

lemma digit_val_dot: "digit_val (CHR ''.'') = None"
  by (simp add: digit_val_def)

lemma parse_digits_append:
  "parse_digits acc (xs @ ys) =
     (case parse_digits acc xs of None \<Rightarrow> None | Some a \<Rightarrow> parse_digits a ys)"
  by (induction xs arbitrary: acc) (auto split: option.splits)

lemma parse_digits_string_of_nat: "parse_digits 0 (string_of_nat n) = Some n"
proof (induction n rule: string_of_nat.induct)
  case (1 n)
  show ?case
  proof (cases "n < 10")
    case True
    then show ?thesis
      by (simp add: string_of_nat.simps [of n] digit_val_digit_char)
  next
    case False
    then have "parse_digits 0 (string_of_nat (n div 10)) = Some (n div 10)"
      using "1.IH" by simp
    then show ?thesis
      using False
      by (simp add: string_of_nat.simps [of n] parse_digits_append digit_val_digit_char)
  qed
qed

lemma string_of_nat_nonempty: "string_of_nat n \<noteq> []"
  by (simp add: string_of_nat.simps [of n])

lemma parse_nat_string_of_nat: "parse_nat (string_of_nat n) = Some n"
  by (simp add: parse_nat_def string_of_nat_nonempty parse_digits_string_of_nat)

lemma string_of_nat_digits: "c \<in> set (string_of_nat n) \<Longrightarrow> digit_val c \<noteq> None"
proof (induction n rule: string_of_nat.induct)
  case (1 n)
  show ?case
  proof (cases "n < 10")
    case True
    then show ?thesis
      using "1.prems" by (auto simp: string_of_nat.simps [of n] digit_val_digit_char)
  next
    case False
    then show ?thesis
      using "1.prems" "1.IH"
      by (auto simp: string_of_nat.simps [of n] digit_val_digit_char)
  qed
qed

lemma string_of_nat_no_dot: "c \<in> set (string_of_nat n) \<Longrightarrow> c \<noteq> CHR ''.''"
  using string_of_nat_digits [of c n] digit_val_dot by auto

lemma float_of_string_decimal1:
  "float_of_string (decimal1 k) = Some (round_double (of_nat k / 10))"
proof -
  let ?ip = "string_of_nat (k div 10)" and ?fp = "string_of_nat (k mod 10)"
  have tw: "takeWhile (\<lambda>c. c \<noteq> CHR ''.'') (decimal1 k) = ?ip"
    using string_of_nat_no_dot [of _ "k div 10"] by (simp add: decimal1_def takeWhile_append2)
  have dw: "dropWhile (\<lambda>c. c \<noteq> CHR ''.'') (decimal1 k) = CHR ''.'' # ?fp"
    using string_of_nat_no_dot [of _ "k div 10"] by (simp add: decimal1_def dropWhile_append2)
  have len: "length ?fp = 1"
    by (simp add: string_of_nat.simps [of "k mod 10"])
  have "k = 10 * (k div 10) + k mod 10" by simp
  then have "(of_nat k :: rat) = 10 * of_nat (k div 10) + of_nat (k mod 10)"
    by (metis of_nat_add of_nat_mult of_nat_numeral)
  then have val: "(of_nat (k div 10) :: rat) + of_nat (k mod 10) / 10 = of_nat k / 10"
    by simp
  show ?thesis
    by (simp add: float_of_string_def tw dw parse_nat_string_of_nat len val)
qed

lemma next_version_number_decimal1:
  assumes "10 \<le> k" and "k < 10 ^ 15"
  shows "next_version_number (decimal1 k) = Some (decimal1 (k + 1))"
proof -
  let ?s = "round_double (round_double (of_nat k / 10) + round_double (1 / 10))"
  have "next_version_number (decimal1 k) = format_1f ?s"
    by (simp add: next_version_number_def float_of_string_decimal1)
  also have "\<dots> = Some (decimal1 (k + 1))"
  proof -
    have "nat (round_half_even (?s * 10)) = k + 1"
      using next_tenth(1) [OF assms] by (simp only: nat_int)
    then show ?thesis
      using next_tenth(2) [OF assms] by (simp add: format_1f_def Let_def decimal1_def)
  qed
  finally show ?thesis .
qed

lemma decimal1_10: "decimal1 10 = ''1.0''" "decimal1 11 = ''1.1''" "decimal1 12 = ''1.2''" "decimal1 13 = ''1.3''"
  by (simp_all add: decimal1_def string_of_nat.simps digit_char_def)

subsection \<open>Sequential creation\<close>

lemma hd_sort_key_min:
  assumes "xs \<noteq> []"
  shows "hd (sort_key f xs) \<in> set xs \<and> (\<forall>x\<in>set xs. f (hd (sort_key f xs)) \<le> f x)"
proof -
  let ?ys = "sort_key f xs"
  have ne: "?ys \<noteq> []" using assms by (metis length_0_conv length_sort)
  then obtain y ys where ys: "?ys = y # ys" by (cases ?ys) auto
  have "sorted (map f ?ys)" by (rule sorted_sort_key)
  then have "\<forall>x\<in>set ys. f y \<le> f x" by (simp add: ys)
  moreover have "set ?ys = set xs" by (rule set_sort)
  ultimately show ?thesis by (auto simp: ys)
qed

lemma latest_version_last:
  assumes "dataset_versions db ds = vs" and "vs \<noteq> []"
    and "sorted_wrt (\<lambda>a b. created_at a < created_at b) vs"
  shows "latest_version db ds = Some (last vs)"
proof -
  let ?f = "\<lambda>v. - int (created_at v)"
  let ?h = "hd (sort_key ?f vs)"
  have h: "?h \<in> set vs" "\<forall>x\<in>set vs. ?f ?h \<le> ?f x"
    using hd_sort_key_min [OF assms(2), of ?f] by auto
  have vs: "vs = butlast vs @ [last vs]" using assms(2) by simp
  have "sorted_wrt (\<lambda>a b. created_at a < created_at b) (butlast vs @ [last vs])"
    using assms(3) vs by simp
  then have lt: "\<forall>x\<in>set (butlast vs). created_at x < created_at (last vs)"
    by (simp add: sorted_wrt_append)
  have "created_at (last vs) \<le> created_at ?h"
    using h(2) assms(2) by force
  moreover have "?h \<in> set (butlast vs) \<or> ?h = last vs"
    using h(1) vs by (metis Un_iff insert_iff list.set(2) set_append empty_iff empty_set)
  ultimately have "?h = last vs"
    using lt by force
  moreover have "sort_key ?f vs \<noteq> []"
    using assms(2) by (metis length_0_conv length_sort)
  ultimately show ?thesis
    using assms(1) by (auto simp: latest_version_def dataset_versions_def split: list.splits)
qed


lemma create_new_version_step:
  assumes ds: "ds \<in> set (datasets db)"
    and vs: "dataset_versions db ds = vs" "vs \<noteq> []"
    and sorted: "sorted_wrt (\<lambda>a b. created_at a < created_at b) vs"
    and num: "version_number (last vs) = decimal1 k" "10 \<le> k" "k < 10 ^ 15"
  shows "\<exists>db' nv. create_new_version db ds vc u vid now = Inr (db', nv)
           \<and> version_number nv = decimal1 (k + 1) \<and> created_at nv = now
           \<and> dataset_versions db' ds = vs @ [nv] \<and> datasets db' = datasets db"
proof -
  have l: "latest_version db ds = Some (last vs)"
    using vs sorted by (rule latest_version_last)
  have n: "next_version_number (version_number (last vs)) = Some (decimal1 (k + 1))"
    unfolding num(1) using num(2,3) by (rule next_version_number_decimal1)
  show ?thesis
    using ds vs(1)
    by (simp add: create_new_version_def l n Let_def dataset_versions_def)
qed

text \<open>
  C7: for every dataset whose versions, in the order of their creation times,
  carry consecutive one-decimal numbers from \<open>k\<^sub>0 / 10 \<ge> 1.0\<close> on (a dataset
  with its initial version \<^verbatim>\<open>1.0\<close> is one), versions created one after the
  other at increasing times get the following numbers: each new number is the
  greatest number so far plus one tenth, written with one decimal. From
  \<^verbatim>\<open>1.0\<close> the numbers are \<^verbatim>\<open>1.1\<close>, \<^verbatim>\<open>1.2\<close>, \<^verbatim>\<open>1.3\<close>, and so on. The binary
  rounding of \<^verbatim>\<open>float(...) + 0.1\<close> never shows in the formatted number as long as
  the numbers stay below \<open>10\<^sup>1\<^sup>4\<close>.
\<close>

theorem create_versions_numbering:
  assumes "ds \<in> set (datasets db)"
    and "dataset_versions db ds = vs" and "vs \<noteq> []"
    and "map version_number vs = map decimal1 [k0..<k0 + length vs]" and "10 \<le> k0"
    and "sorted_wrt (<) (map created_at vs @ map (\<lambda>(vc, u, vid, now). now) requests)"
    and "k0 + length vs + length requests \<le> 10 ^ 15"
  shows "\<exists>db'. create_versions db ds requests = Inr db'
           \<and> map version_number (dataset_versions db' ds)
               = map decimal1 [k0..<k0 + length vs + length requests]"
  using assms
proof (induction requests arbitrary: db vs)
  case Nil
  then show ?case by simp
next
  case (Cons r requests)
  obtain vc u vid now where r: "r = (vc, u, vid, now)" by (cases r) auto
  let ?k = "k0 + length vs - 1"
  have len: "0 < length vs" using Cons.prems(3) by simp
  have "version_number (last vs) = last (map version_number vs)"
    using Cons.prems(3) by (simp add: last_map)
  also have "\<dots> = last (map decimal1 [k0..<k0 + length vs])"
    by (simp only: Cons.prems(4))
  also have "\<dots> = decimal1 ?k"
    using len by (simp add: last_map)
  finally have num: "version_number (last vs) = decimal1 ?k" .
  have k10: "10 \<le> ?k"
    using Cons.prems(5) len by linarith
  have "?k < 10 ^ 15"
    using Cons.prems(7) len by simp
  note k = k10 this
  have "sorted_wrt (<) (map created_at vs)"
    using Cons.prems(6) by (simp add: sorted_wrt_append)
  then have sorted: "sorted_wrt (\<lambda>a b. created_at a < created_at b) vs"
    by (simp add: sorted_wrt_map)
  from create_new_version_step [OF Cons.prems(1,2,3) sorted num k, of vc u vid now]
  obtain db' nv where step: "create_new_version db ds vc u vid now = Inr (db', nv)"
    and nv: "version_number nv = decimal1 (?k + 1)" "created_at nv = now"
    and vs': "dataset_versions db' ds = vs @ [nv]" and ds': "datasets db' = datasets db"
    by blast
  have k1: "?k + 1 = k0 + length vs" using len by simp
  have a1: "ds \<in> set (datasets db')" using Cons.prems(1) ds' by simp
  have a4: "map version_number (vs @ [nv]) = map decimal1 [k0..<k0 + length (vs @ [nv])]"
    using Cons.prems(4) nv(1) k1 by simp
  have a6: "sorted_wrt (<) (map created_at (vs @ [nv])
              @ map (\<lambda>(vc, u, vid, now). now) requests)"
    using Cons.prems(6) nv(2) by (simp add: r)
  have a7: "k0 + length (vs @ [nv]) + length requests \<le> 10 ^ 15"
    using Cons.prems(7) by simp
  from Cons.IH [OF a1 vs' _ a4 Cons.prems(5) a6 a7]
  obtain db'' where "create_versions db' ds requests = Inr db''"
    and "map version_number (dataset_versions db'' ds)
           = map decimal1 [k0..<k0 + length (vs @ [nv]) + length requests]"
    by auto
  then show ?case
    using step by (auto simp: r)
qed

theorem create_versions_numbering_witness:
  "\<exists>db'. create_versions numbering_example_db ''d''
            [(\<lparr>vc_data = [[''id'' \<mapsto> 2]], vc_schema_changes = None, vc_comment = None,
               vc_change_type = INSERT\<rparr>, ''u'', ''v2'', 11),
             (\<lparr>vc_data = [[''id'' \<mapsto> 2]], vc_schema_changes = None, vc_comment = None,
               vc_change_type = UPDATE\<rparr>, ''u'', ''v3'', 12),
             (\<lparr>vc_data = [], vc_schema_changes = None, vc_comment = None,
               vc_change_type = DELETE\<rparr>, ''u'', ''v4'', 13)] = Inr db'
         \<and> map version_number (dataset_versions db' ''d'') = [''1.0'', ''1.1'', ''1.2'', ''1.3'']"
proof -
  let ?v1 = "\<lparr>version_id = ''v1'', dataset_id = ''d'', version_number = ''1.0'', created_at = 10,
          created_by = ''u'', change_type = Some INSERT, comment = None\<rparr>"
  let ?requests = "[(\<lparr>vc_data = [[''id'' \<mapsto> (2::int)]], vc_schema_changes = None, vc_comment = None,
               vc_change_type = INSERT\<rparr>, ''u'', ''v2'', 11::nat),
             (\<lparr>vc_data = [[''id'' \<mapsto> 2]], vc_schema_changes = None, vc_comment = None,
               vc_change_type = UPDATE\<rparr>, ''u'', ''v3'', 12),
             (\<lparr>vc_data = [], vc_schema_changes = None, vc_comment = None,
               vc_change_type = DELETE\<rparr>, ''u'', ''v4'', 13)]"
  have h1: "''d'' \<in> set (datasets numbering_example_db)"
    by (simp add: numbering_example_db_def)
  have h2: "dataset_versions numbering_example_db ''d'' = [?v1]"
    by (simp add: numbering_example_db_def dataset_versions_def)
  have h3: "[?v1] \<noteq> []" by simp
  have h4: "map version_number [?v1] = map decimal1 [10..<10 + length [?v1]]"
    by (simp add: decimal1_10)
  have h5: "(10::nat) \<le> 10" by simp
  have h6: "sorted_wrt (<) (map created_at [?v1] @ map (\<lambda>(vc, u, vid, now). now) ?requests)"
    by simp
  have h7: "10 + length [?v1] + length ?requests \<le> 10 ^ 15"
    by simp
  have "map decimal1 [10..<10 + length [?v1] + length ?requests]
          = [''1.0'', ''1.1'', ''1.2'', ''1.3'']"
    by (simp add: upt_rec decimal1_10)
  then show ?thesis
    using create_versions_numbering [OF h1 h2 h3 h4 h5 h6 h7] by simp
qed

lemma create_new_version_change_log:
  "create_new_version db ds vc u vid now = Inr (db', nv) \<Longrightarrow>
   change_logs db' = change_logs db @ [new_version_change_log vid (vc_change_type vc) (vc_data vc)]"
  by (auto simp: create_new_version_def Let_def split: if_splits option.splits)

end
